theory Spec2Isabelle
  imports Complex_Main "HOL-Library.Char_ord" "HOL-Library.List_Lexorder" "HOL-Library.Word"
begin

section \<open>The recommender notebook as HOL functions\<close>

text \<open>
  The notebook \<^verbatim>\<open>22_dsfs_recommender_systems.ipynb\<close> keeps its data in module-level
  variables (\<^verbatim>\<open>users_interests\<close>, \<^verbatim>\<open>unique_interests\<close>, the two similarity matrices)
  that are computed once, cell after cell, from the literal table. Here every such variable
  is a function of the table \<open>ui\<close>, so that the functions can be stated for any table and
  evaluated at the literal one.

  Numbers: the functions of the recommender are written in exact arithmetic, numpy's
  \<^verbatim>\<open>float64\<close> being \<open>real\<close> plus the value \<^verbatim>\<open>nan\<close>. That is what numpy computes, up to the
  rounding of \<^verbatim>\<open>float64\<close>, as long as none of its \<^verbatim>\<open>int64\<close> operations wraps around; on the
  0/1 membership vectors of the recommender none does for a table with fewer than \<open>2 ^ 31\<close>
  users and fewer than \<open>2 ^ 31\<close> interests (lemmas \<open>user_similarities_int64\<close> and
  \<open>interest_similarities_int64\<close>). For the statements about \<^verbatim>\<open>cosine_similarity\<close> on
  arbitrary vectors the function is written a second time, \<open>cosine_similarity_int64\<close>, with
  numpy's \<^verbatim>\<open>int64\<close> arithmetic and the infinities of \<^verbatim>\<open>float64\<close>. Python's \<^verbatim>\<open>int\<close> indices
  are \<open>int\<close>, so that negative indices are inputs of the model as they are of the code.
\<close>

subsection \<open>Python and numpy primitives\<close>

datatype py_error = IndexError | ValueError

datatype np_float = Num real | NaN

text \<open>\<^verbatim>\<open>xs[i]\<close>: a negative index counts from the end, anything else out of range raises.\<close>

definition py_index :: "'a list \<Rightarrow> int \<Rightarrow> py_error + 'a" where
  "py_index xs i =
     (if 0 \<le> i \<and> i < int (length xs) then Inr (xs ! nat i)
      else if i < 0 \<and> - int (length xs) \<le> i then Inr (xs ! nat (int (length xs) + i))
      else Inl IndexError)"

text \<open>\<^verbatim>\<open>xs[:k]\<close>: a negative bound counts from the end (and stops at the start).\<close>

definition py_slice_to :: "int \<Rightarrow> 'a list \<Rightarrow> 'a list" where
  "py_slice_to k xs =
     (if 0 \<le> k then take (nat k) xs else take (nat (int (length xs) + k)) xs)"

text \<open>
  \<^verbatim>\<open>sorted(xs, key=key, reverse=True)\<close>: CPython reverses the list, sorts it stably in
  ascending order and reverses the result, so that equal keys keep their original order.
\<close>

definition sorted_desc :: "('a \<Rightarrow> 'k::linorder) \<Rightarrow> 'a list \<Rightarrow> 'a list" where
  "sorted_desc key xs = rev (sort_key key (rev xs))"

text \<open>A list comprehension whose element expression may raise: the first error wins.\<close>

fun map_err :: "('a \<Rightarrow> 'e + 'b) \<Rightarrow> 'a list \<Rightarrow> 'e + 'b list" where
  "map_err f [] = Inr []"
| "map_err f (x # xs) =
     (case f x of
        Inl e \<Rightarrow> Inl e
      | Inr y \<Rightarrow> (case map_err f xs of Inl e \<Rightarrow> Inl e | Inr ys \<Rightarrow> Inr (y # ys)))"

text \<open>
  A \<^verbatim>\<open>dict\<close> keeps its keys in insertion order, so it is an association list.
  \<^verbatim>\<open>Counter\<close>: counting a key that is present keeps its place, a new key goes last.
\<close>

fun counter_add :: "'k \<Rightarrow> ('k \<times> nat) list \<Rightarrow> ('k \<times> nat) list" where
  "counter_add k [] = [(k, 1)]"
| "counter_add k ((k', c) # rest) =
     (if k' = k then (k', c + 1) # rest else (k', c) # counter_add k rest)"

definition Counter :: "'k list \<Rightarrow> ('k \<times> nat) list" where
  "Counter xs = foldl (\<lambda>d x. counter_add x d) [] xs"

text \<open>\<^verbatim>\<open>Counter.most_common()\<close> is \<^verbatim>\<open>sorted(items, key=itemgetter(1), reverse=True)\<close>.\<close>

definition most_common :: "('k \<times> nat) list \<Rightarrow> ('k \<times> nat) list" where
  "most_common d = sorted_desc snd d"

text \<open>\<^verbatim>\<open>d[k] += s\<close> on a \<^verbatim>\<open>defaultdict(float)\<close>: a missing key starts at \<^verbatim>\<open>0.0\<close>.\<close>

fun dict_add :: "'k \<Rightarrow> real \<Rightarrow> ('k \<times> real) list \<Rightarrow> ('k \<times> real) list" where
  "dict_add k s [] = [(k, 0 + s)]"
| "dict_add k s ((k', w) # rest) =
     (if k' = k then (k', w + s) # rest else (k', w) # dict_add k s rest)"

text \<open>
  \<^verbatim>\<open>np.dot\<close> of two one-dimensional sequences: \<^verbatim>\<open>ValueError\<close> when the lengths differ.
\<close>

definition dot :: "real list \<Rightarrow> real list \<Rightarrow> real" where
  "dot v w = sum_list (map (\<lambda>(x, y). x * y) (zip v w))"

definition np_dot :: "real list \<Rightarrow> real list \<Rightarrow> py_error + real" where
  "np_dot v w = (if length v \<noteq> length w then Inl ValueError else Inr (dot v w))"

subsection \<open>The data and the popularity baseline\<close>

definition users_interests :: "string list list" where
  "users_interests =
    [[''Hadoop'', ''Big Data'', ''HBase'', ''Java'', ''Spark'', ''Storm'', ''Cassandra''],
     [''NoSQL'', ''MongoDB'', ''Cassandra'', ''HBase'', ''Postgres''],
     [''Python'', ''scikit-learn'', ''scipy'', ''numpy'', ''statsmodels'', ''pandas''],
     [''R'', ''Python'', ''statistics'', ''regression'', ''probability''],
     [''machine learning'', ''regression'', ''decision trees'', ''libsvm''],
     [''Python'', ''R'', ''Java'', ''C++'', ''Haskell'', ''programming languages''],
     [''statistics'', ''probability'', ''mathematics'', ''theory''],
     [''machine learning'', ''scikit-learn'', ''Mahout'', ''neural networks''],
     [''neural networks'', ''deep learning'', ''Big Data'', ''artificial intelligence''],
     [''Hadoop'', ''Java'', ''MapReduce'', ''Big Data''],
     [''statistics'', ''R'', ''statsmodels''],
     [''C++'', ''deep learning'', ''artificial intelligence'', ''probability''],
     [''pandas'', ''R'', ''Python''],
     [''databases'', ''HBase'', ''Postgres'', ''MySQL'', ''MongoDB''],
     [''libsvm'', ''regression'', ''support vector machines'']]"

text \<open>
  A second, small table for worked examples: three users, any two of whom share exactly
  one interest.
\<close>

definition three_users :: "string list list" where
  "three_users = [[''a'', ''b''], [''a'', ''c''], [''b'', ''c'']]"

definition popular_interests :: "'a list list \<Rightarrow> ('a \<times> nat) list" where
  "popular_interests ui = most_common (Counter (concat ui))"

definition most_popular_new_interests ::
  "'a list list \<Rightarrow> 'a list \<Rightarrow> int \<Rightarrow> ('a \<times> nat) list" where
  "most_popular_new_interests ui user_interests max_results =
     (let suggested_interests =
            filter (\<lambda>(interest, freq). interest \<notin> set user_interests) (popular_interests ui)
      in py_slice_to max_results suggested_interests)"

subsection \<open>Membership vectors and cosine similarity\<close>

text \<open>
  In \<^verbatim>\<open>cosine_similarity\<close> the quotient is a numpy division: \<^verbatim>\<open>0 / 0.0\<close> is \<^verbatim>\<open>nan\<close>
  (with a warning, no exception). A non-zero numerator over \<^verbatim>\<open>0.0\<close> would be infinite,
  but the numerator \<open>v \<bullet> w\<close> is \<open>0\<close> whenever \<open>(v \<bullet> v) * (w \<bullet> w)\<close> is
  (lemma \<open>zero_norm_dot_zero\<close> below), so the only value at a zero denominator is \<^verbatim>\<open>nan\<close>.
  This is the function in exact arithmetic, as the recommender uses it on membership
  vectors; \<open>cosine_similarity_int64\<close> below is the function in \<^verbatim>\<open>int64\<close> arithmetic, where
  a product can wrap around.
\<close>

definition cosine_similarity :: "real list \<Rightarrow> real list \<Rightarrow> py_error + np_float" where
  "cosine_similarity v w =
     (case np_dot v w of
        Inl e \<Rightarrow> Inl e
      | Inr vw \<Rightarrow>
          (case np_dot v v of
             Inl e \<Rightarrow> Inl e
           | Inr vv \<Rightarrow>
               (case np_dot w w of
                  Inl e \<Rightarrow> Inl e
                | Inr ww \<Rightarrow>
                    Inr (if sqrt (vv * ww) = 0 then NaN else Num (vw / sqrt (vv * ww))))))"

text \<open>\<^verbatim>\<open>sorted(list({...}))\<close>: the distinct interests in ascending order.\<close>

definition unique_interests :: "'a::linorder list list \<Rightarrow> 'a list" where
  "unique_interests ui = sort (remdups (concat ui))"

definition generate_user_interest_vector :: "'a::linorder list list \<Rightarrow> 'a list \<Rightarrow> int list" where
  "generate_user_interest_vector ui user_interests =
     map (\<lambda>interest. if interest \<in> set user_interests then 1 else 0) (unique_interests ui)"

definition user_interest_matrix :: "'a::linorder list list \<Rightarrow> int list list" where
  "user_interest_matrix ui = map (generate_user_interest_vector ui) ui"

text \<open>\<^verbatim>\<open>np.dot\<close> turns the lists of Python ints into arrays; the quotient is a float.\<close>

definition similarity_matrix :: "int list list \<Rightarrow> py_error + np_float list list" where
  "similarity_matrix m =
     map_err (\<lambda>vector_i.
        map_err (\<lambda>vector_j.
          cosine_similarity (map real_of_int vector_i) (map real_of_int vector_j)) m) m"

definition user_similarities :: "'a::linorder list list \<Rightarrow> py_error + np_float list list" where
  "user_similarities ui = similarity_matrix (user_interest_matrix ui)"

subsection \<open>\<^verbatim>\<open>cosine_similarity\<close> in numpy's machine arithmetic\<close>

text \<open>
  \<^verbatim>\<open>np.dot\<close> turns a list of Python ints, each within the range of \<^verbatim>\<open>int64\<close> (numpy's
  default integer), into an \<^verbatim>\<open>int64\<close> array and computes the sum of products in \<^verbatim>\<open>int64\<close>,
  which wraps around modulo \<open>2 ^ 64\<close>. The product \<^verbatim>\<open>np.dot(v, v) * np.dot(w, w)\<close> of two
  \<^verbatim>\<open>int64\<close> scalars wraps around in the same way (with a warning, no exception). This is
  numpy where its default integer has 64 bits (Linux and macOS, and every platform from
  numpy 2 on).
\<close>

type_synonym int64 = "64 word"

definition np_dot_int64 :: "int64 list \<Rightarrow> int64 list \<Rightarrow> py_error + int64" where
  "np_dot_int64 v w =
     (if length v \<noteq> length w then Inl ValueError
      else Inr (sum_list (map (\<lambda>(x, y). x * y) (zip v w))))"

text \<open>
  \<^verbatim>\<open>np.sqrt\<close> of an \<^verbatim>\<open>int64\<close> is a \<^verbatim>\<open>float64\<close>, and \<^verbatim>\<open>nan\<close> for a negative argument; the
  quotient of an \<^verbatim>\<open>int64\<close> by a \<^verbatim>\<open>float64\<close> is a \<^verbatim>\<open>float64\<close>, and over \<^verbatim>\<open>0.0\<close> it is
  \<^verbatim>\<open>nan\<close>, \<^verbatim>\<open>inf\<close> or \<^verbatim>\<open>-inf\<close> (warnings, no exception). A \<^verbatim>\<open>float64\<close> is a real number, an
  infinity or \<^verbatim>\<open>nan\<close>: the rounding of the conversion from \<^verbatim>\<open>int64\<close>, of the square root
  and of the quotient is not modelled. A list that holds a Python float is a \<^verbatim>\<open>float64\<close>
  array from the start; that arithmetic is not modelled.
\<close>

datatype float64 = F64 real | Inf64 | NegInf64 | NaN64

definition np_sqrt :: "int64 \<Rightarrow> float64" where
  "np_sqrt x = (if sint x < 0 then NaN64 else F64 (sqrt (real_of_int (sint x))))"

definition np_true_divide :: "int64 \<Rightarrow> float64 \<Rightarrow> float64" where
  "np_true_divide x y =
     (case y of
        F64 d \<Rightarrow>
          if d \<noteq> 0 then F64 (real_of_int (sint x) / d)
          else if sint x = 0 then NaN64
          else if 0 < sint x then Inf64 else NegInf64
      | Inf64 \<Rightarrow> F64 0
      | NegInf64 \<Rightarrow> F64 0
      | NaN64 \<Rightarrow> NaN64)"

definition cosine_similarity_int64 :: "int64 list \<Rightarrow> int64 list \<Rightarrow> py_error + float64" where
  "cosine_similarity_int64 v w =
     (case np_dot_int64 v w of
        Inl e \<Rightarrow> Inl e
      | Inr vw \<Rightarrow>
          (case np_dot_int64 v v of
             Inl e \<Rightarrow> Inl e
           | Inr vv \<Rightarrow>
               (case np_dot_int64 w w of
                  Inl e \<Rightarrow> Inl e
                | Inr ww \<Rightarrow> Inr (np_true_divide vw (np_sqrt (vv * ww))))))"

text \<open>The comprehension of the two similarity matrices, with this arithmetic.\<close>

definition similarity_matrix_int64 :: "int list list \<Rightarrow> py_error + float64 list list" where
  "similarity_matrix_int64 m =
     map_err (\<lambda>vector_i.
        map_err (\<lambda>vector_j.
          cosine_similarity_int64 (map word_of_int vector_i) (map word_of_int vector_j)) m) m"

text \<open>The values of the exact arithmetic among those of \<^verbatim>\<open>float64\<close>.\<close>

definition float64_of :: "np_float \<Rightarrow> float64" where
  "float64_of x = (case x of Num r \<Rightarrow> F64 r | NaN \<Rightarrow> NaN64)"

subsection \<open>User-based collaborative filtering\<close>

text \<open>
  The pairs that pass \<^verbatim>\<open>similarity > 0\<close> carry a number: \<^verbatim>\<open>nan > 0\<close> is false.
\<close>

definition similar_pair :: "int \<Rightarrow> nat \<times> np_float \<Rightarrow> (nat \<times> real) option" where
  "similar_pair this_id p =
     (case p of
        (other_id, Num similarity) \<Rightarrow>
          if this_id \<noteq> int other_id \<and> similarity > 0 then Some (other_id, similarity) else None
      | (other_id, NaN) \<Rightarrow> None)"

definition get_similar_users :: "'a::linorder list list \<Rightarrow> int \<Rightarrow> py_error + (nat \<times> real) list" where
  "get_similar_users ui user_id =
     (case user_similarities ui of
        Inl e \<Rightarrow> Inl e
      | Inr sims \<Rightarrow>
          (case py_index sims user_id of
             Inl e \<Rightarrow> Inl e
           | Inr row \<Rightarrow>
               (let pairs = List.map_filter (similar_pair user_id) (enumerate 0 row)
                in Inr (sorted_desc snd pairs))))"

text \<open>The two nested loops of \<^verbatim>\<open>user_based_suggestions\<close>.\<close>

fun add_user_interests ::
  "real \<Rightarrow> 'a list \<Rightarrow> ('a \<times> real) list \<Rightarrow> ('a \<times> real) list" where
  "add_user_interests similarity [] suggestions = suggestions"
| "add_user_interests similarity (interest # rest) suggestions =
     add_user_interests similarity rest (dict_add interest similarity suggestions)"

fun similar_users_loop ::
  "'a list list \<Rightarrow> (nat \<times> real) list \<Rightarrow> ('a \<times> real) list \<Rightarrow> py_error + ('a \<times> real) list" where
  "similar_users_loop ui [] suggestions = Inr suggestions"
| "similar_users_loop ui ((other_user_id, similarity) # rest) suggestions =
     (case py_index ui (int other_user_id) of
        Inl e \<Rightarrow> Inl e
      | Inr interests \<Rightarrow>
          similar_users_loop ui rest (add_user_interests similarity interests suggestions))"

text \<open>
  The final comprehension reads \<^verbatim>\<open>users_interests[user_id]\<close> once for each suggestion.
\<close>

fun exclude_current ::
  "'a list list \<Rightarrow> int \<Rightarrow> ('a \<times> real) list \<Rightarrow> py_error + ('a \<times> real) list" where
  "exclude_current ui user_id [] = Inr []"
| "exclude_current ui user_id ((suggestion, weight) # rest) =
     (case py_index ui user_id of
        Inl e \<Rightarrow> Inl e
      | Inr current \<Rightarrow>
          (case exclude_current ui user_id rest of
             Inl e \<Rightarrow> Inl e
           | Inr kept \<Rightarrow>
               Inr (if suggestion \<notin> set current then (suggestion, weight) # kept else kept)))"

definition user_based_suggestions ::
  "'a::linorder list list \<Rightarrow> int \<Rightarrow> bool \<Rightarrow> py_error + ('a \<times> real) list" where
  "user_based_suggestions ui user_id include_current_interests =
     (case get_similar_users ui user_id of
        Inl e \<Rightarrow> Inl e
      | Inr similar \<Rightarrow>
          (case similar_users_loop ui similar [] of
             Inl e \<Rightarrow> Inl e
           | Inr suggestions \<Rightarrow>
               (let suggestions = sorted_desc snd suggestions
                in if include_current_interests then Inr suggestions
                   else exclude_current ui user_id suggestions)))"

subsection \<open>Item-based collaborative filtering\<close>

text \<open>The transposition reads \<^verbatim>\<open>user_interest_vector[j]\<close> for every interest index \<open>j\<close>.\<close>

definition interest_user_matrix :: "'a::linorder list list \<Rightarrow> py_error + int list list" where
  "interest_user_matrix ui =
     map_err (\<lambda>(j, _).
        map_err (\<lambda>user_interest_vector. py_index user_interest_vector (int j))
          (user_interest_matrix ui))
       (enumerate 0 (unique_interests ui))"

definition interest_similarities :: "'a::linorder list list \<Rightarrow> py_error + np_float list list" where
  "interest_similarities ui =
     (case interest_user_matrix ui of Inl e \<Rightarrow> Inl e | Inr m \<Rightarrow> similarity_matrix m)"

fun similar_interest_pairs ::
  "'a list \<Rightarrow> int \<Rightarrow> (nat \<times> np_float) list \<Rightarrow> py_error + ('a \<times> real) list" where
  "similar_interest_pairs names interest_id [] = Inr []"
| "similar_interest_pairs names interest_id (p # rest) =
     (case similar_pair interest_id p of
        None \<Rightarrow> similar_interest_pairs names interest_id rest
      | Some (other_interest_id, similarity) \<Rightarrow>
          (case py_index names (int other_interest_id) of
             Inl e \<Rightarrow> Inl e
           | Inr name \<Rightarrow>
               (case similar_interest_pairs names interest_id rest of
                  Inl e \<Rightarrow> Inl e
                | Inr pairs \<Rightarrow> Inr ((name, similarity) # pairs))))"

definition get_similar_interests :: "'a::linorder list list \<Rightarrow> int \<Rightarrow> py_error + ('a \<times> real) list" where
  "get_similar_interests ui interest_id =
     (case interest_similarities ui of
        Inl e \<Rightarrow> Inl e
      | Inr isims \<Rightarrow>
          (case py_index isims interest_id of
             Inl e \<Rightarrow> Inl e
           | Inr similarities \<Rightarrow>
               (case similar_interest_pairs (unique_interests ui) interest_id
                       (enumerate 0 similarities) of
                  Inl e \<Rightarrow> Inl e
                | Inr pairs \<Rightarrow> Inr (sorted_desc snd pairs))))"

fun add_similar_interests ::
  "('a \<times> real) list \<Rightarrow> ('a \<times> real) list \<Rightarrow> ('a \<times> real) list" where
  "add_similar_interests [] suggestions = suggestions"
| "add_similar_interests ((interest, similarity) # rest) suggestions =
     add_similar_interests rest (dict_add interest similarity suggestions)"

fun held_interests_loop ::
  "'a::linorder list list \<Rightarrow> (nat \<times> int) list \<Rightarrow> ('a \<times> real) list
     \<Rightarrow> py_error + ('a \<times> real) list" where
  "held_interests_loop ui [] suggestions = Inr suggestions"
| "held_interests_loop ui ((interest_id, is_interested) # rest) suggestions =
     (if is_interested = 1 then
        (case get_similar_interests ui (int interest_id) of
           Inl e \<Rightarrow> Inl e
         | Inr similar_interests \<Rightarrow>
             held_interests_loop ui rest (add_similar_interests similar_interests suggestions))
      else held_interests_loop ui rest suggestions)"

definition item_based_suggestions ::
  "'a::linorder list list \<Rightarrow> int \<Rightarrow> bool \<Rightarrow> py_error + ('a \<times> real) list" where
  "item_based_suggestions ui user_id include_current_interests =
     (case py_index (user_interest_matrix ui) user_id of
        Inl e \<Rightarrow> Inl e
      | Inr user_interest_vector \<Rightarrow>
          (case held_interests_loop ui (enumerate 0 user_interest_vector) [] of
             Inl e \<Rightarrow> Inl e
           | Inr suggestions \<Rightarrow>
               (let suggestions = sorted_desc snd suggestions
                in if include_current_interests then Inr suggestions
                   else exclude_current ui user_id suggestions)))"

subsection \<open>Closed forms used in the proofs\<close>

text \<open>The value of \<^verbatim>\<open>cosine_similarity\<close> on two vectors of the same length.\<close>

definition cosine_value :: "real list \<Rightarrow> real list \<Rightarrow> np_float" where
  "cosine_value v w =
     (if dot v v = 0 \<or> dot w w = 0 then NaN else Num (dot v w / sqrt (dot v v * dot w w)))"

text \<open>
  The entry of the user-similarity matrix for two users with the interest lists \<open>a\<close> and
  \<open>b\<close>: the number of shared interests over the root of the product of the numbers of
  interests, and \<^verbatim>\<open>nan\<close> when one of the lists is empty.
\<close>

definition user_sim :: "'a list \<Rightarrow> 'a list \<Rightarrow> np_float" where
  "user_sim a b =
     (if a = [] \<or> b = [] then NaN
      else Num (real (card (set a \<inter> set b)) / sqrt (real (card (set a)) * real (card (set b)))))"

text \<open>
  The entry of the interest-similarity matrix for the interests \<open>x\<close> and \<open>y\<close>, from the
  number of users who hold both.
\<close>

definition co_holders :: "'a list list \<Rightarrow> 'a \<Rightarrow> 'a \<Rightarrow> nat" where
  "co_holders ui x y = length (filter (\<lambda>a. x \<in> set a \<and> y \<in> set a) ui)"

definition interest_sim :: "'a list list \<Rightarrow> 'a \<Rightarrow> 'a \<Rightarrow> np_float" where
  "interest_sim ui x y =
     (if co_holders ui x x = 0 \<or> co_holders ui y y = 0 then NaN
      else Num (real (co_holders ui x y)
                  / sqrt (real (co_holders ui x x) * real (co_holders ui y y))))"

text \<open>
  The contributions that the loops of the two suggestion functions add to the
  dictionary, in the order in which they add them; \<open>similar_interests\<close> is the result of
  \<^verbatim>\<open>get_similar_interests\<close> at an index in range.
\<close>

definition user_contributions :: "'a list list \<Rightarrow> (nat \<times> real) list \<Rightarrow> ('a \<times> real) list" where
  "user_contributions ui similar = concat (map (\<lambda>(v, s). map (\<lambda>i. (i, s)) (ui ! v)) similar)"

definition similar_interests :: "'a::linorder list list \<Rightarrow> nat \<Rightarrow> ('a \<times> real) list" where
  "similar_interests ui i =
     sorted_desc snd
       (map (\<lambda>(j, s). (unique_interests ui ! j, s))
          (List.map_filter (similar_pair (int i))
             (enumerate 0 (map (interest_sim ui (unique_interests ui ! i)) (unique_interests ui)))))"

definition item_contributions :: "'a::linorder list list \<Rightarrow> (nat \<times> int) list \<Rightarrow> ('a \<times> real) list" where
  "item_contributions ui ids =
     concat (map (\<lambda>(i, is_interested). if is_interested = 1 then similar_interests ui i else []) ids)"

text \<open>
  An entry of the interest-similarity matrix from three counts: the holders \<open>h\<close> of the row's
  interest, the users who hold both interests, and the holders of the column's interest.
\<close>

definition sim_of :: "nat \<Rightarrow> nat \<times> nat \<Rightarrow> np_float" where
  "sim_of h p = (if h = 0 \<or> snd p = 0 then NaN else Num (real (fst p) / sqrt (real (h * snd p))))"

subsection \<open>Notions used in the statements\<close>

text \<open>The position at which \<open>x\<close> is first met in \<open>xs\<close>.\<close>

definition first_pos :: "'a list \<Rightarrow> 'a \<Rightarrow> nat" where
  "first_pos xs x = length (takeWhile (\<lambda>y. y \<noteq> x) xs)"

text \<open>What a similarity contributes to a suggestion: itself when it is a positive number.\<close>

definition positive_similarity :: "py_error + np_float \<Rightarrow> real" where
  "positive_similarity r = (case r of Inr (Num s) \<Rightarrow> if 0 < s then s else 0 | _ \<Rightarrow> 0)"

text \<open>
  The dot product of two \<^verbatim>\<open>int64\<close> vectors in \<open>\<int>\<close>, without wrap-around.
\<close>

definition dot_int64 :: "int64 list \<Rightarrow> int64 list \<Rightarrow> int" where
  "dot_int64 v w = sum_list (map (\<lambda>(x, y). sint x * sint y) (zip v w))"

section \<open>Properties\<close>

subsection \<open>Descending stable sort\<close>

lemma set_sorted_desc: "set (sorted_desc key xs) = set xs"
  by (simp add: sorted_desc_def)

lemma length_sorted_desc: "length (sorted_desc key xs) = length xs"
  by (simp add: sorted_desc_def)

lemma distinct_sorted_desc: "distinct (sorted_desc key xs) = distinct xs"
  by (simp add: sorted_desc_def)

lemma filter_sorted_desc: "filter P (sorted_desc key xs) = sorted_desc key (filter P xs)"
  by (simp add: sorted_desc_def filter_sort flip: rev_filter)

text \<open>
  One insertion of the ascending sort: \<open>x\<close> comes after every element of \<open>ys\<close> in the
  original order \<open>R\<close>, and lands before the elements of equal key.
\<close>

lemma insort_key_tie:
  assumes "sorted_wrt (\<lambda>a b. key a < key b \<or> (key a = key b \<and> R b a)) ys"
    and "\<forall>y\<in>set ys. R y x"
  shows "sorted_wrt (\<lambda>a b. key a < key b \<or> (key a = key b \<and> R b a)) (insort_key key x ys)"
  using assms
proof (induction ys)
  case Nil
  then show ?case by simp
next
  case (Cons y ys)
  show ?case
  proof (cases "key x \<le> key y")
    case True
    have "\<forall>z\<in>set (y # ys). key x < key z \<or> (key x = key z \<and> R z x)"
    proof
      fix z assume z: "z \<in> set (y # ys)"
      have "key y \<le> key z"
        using z Cons.prems(1) by auto
      with True have "key x \<le> key z" by simp
      moreover have "R z x" using z Cons.prems(2) by blast
      ultimately show "key x < key z \<or> (key x = key z \<and> R z x)" by auto
    qed
    with True Cons.prems(1) show ?thesis by simp
  next
    case False
    have "sorted_wrt (\<lambda>a b. key a < key b \<or> (key a = key b \<and> R b a)) (insort_key key x ys)"
      using Cons.IH Cons.prems by simp
    moreover have "\<forall>z\<in>set (insort_key key x ys). key y < key z \<or> (key y = key z \<and> R z y)"
      using Cons.prems(1) False by (auto simp: set_insort_key)
    ultimately show ?thesis using False by simp
  qed
qed

lemma sort_key_rev_tie:
  "sorted_wrt R xs \<Longrightarrow>
   sorted_wrt (\<lambda>a b. key a < key b \<or> (key a = key b \<and> R b a)) (sort_key key (rev xs))"
proof (induction xs rule: rev_induct)
  case Nil
  then show ?case by simp
next
  case (snoc x xs)
  from snoc.prems have R: "sorted_wrt R xs" and all: "\<forall>y\<in>set xs. R y x"
    by (auto simp: sorted_wrt_append)
  have "sort_key key (rev (xs @ [x])) = insort_key key x (sort_key key (rev xs))"
    by simp
  moreover have "\<forall>y\<in>set (sort_key key (rev xs)). R y x"
    using all by simp
  ultimately show ?case
    using insort_key_tie [OF snoc.IH [OF R]] by simp
qed

text \<open>Descending by key, and among equal keys the order \<open>R\<close> of the input survives.\<close>

lemma sorted_desc_tie:
  "sorted_wrt R xs \<Longrightarrow>
   sorted_wrt (\<lambda>a b. key b < key a \<or> (key a = key b \<and> R a b)) (sorted_desc key xs)"
  unfolding sorted_desc_def sorted_wrt_rev
  using sort_key_rev_tie [of R xs key]
  by (rule sorted_wrt_mono_rel [rotated]) auto

lemma sorted_desc_sorted: "sorted_wrt (\<lambda>a b. key b \<le> key a) (sorted_desc key xs)"
proof -
  have "sorted_wrt (\<lambda>a b. True) xs" by (induction xs) auto
  from sorted_desc_tie [OF this, of key] show ?thesis
    by (rule sorted_wrt_mono_rel [rotated]) auto
qed

lemma sorted_desc_stable:
  "filter (\<lambda>y. key y = k) (sorted_desc key xs) = filter (\<lambda>y. key y = k) xs"
  by (simp add: sorted_desc_def rev_filter [symmetric] sort_key_stable)

subsection \<open>The popularity baseline\<close>

lemma map_of_counter_add:
  "map_of (counter_add k d) =
     (map_of d)(k \<mapsto> (case map_of d k of None \<Rightarrow> 1 | Some c \<Rightarrow> c + 1))"
  by (induction d) (auto simp: fun_eq_iff)

lemma keys_counter_add:
  "map fst (counter_add k d) = (if k \<in> fst ` set d then map fst d else map fst d @ [k])"
  by (induction d) (force split: if_splits)+

lemma distinct_counter_add:
  "distinct (map fst d) \<Longrightarrow> distinct (map fst (counter_add k d))"
  by (simp add: keys_counter_add)

lemma counter_fold:
  "map_of (foldl (\<lambda>d x. counter_add x d) d xs) k =
     (if k \<in> set xs
      then Some ((case map_of d k of None \<Rightarrow> 0 | Some c \<Rightarrow> c) + count_list xs k)
      else map_of d k)"
proof (induction xs arbitrary: d)
  case Nil
  then show ?case by simp
next
  case (Cons x xs)
  show ?case
    by (simp add: Cons.IH map_of_counter_add split: option.splits)
qed

lemma distinct_counter_fold:
  "distinct (map fst d) \<Longrightarrow> distinct (map fst (foldl (\<lambda>d x. counter_add x d) d xs))"
  by (induction xs arbitrary: d) (simp_all add: distinct_counter_add)

lemma Counter_counts:
  "(k, c) \<in> set (Counter xs) \<longleftrightarrow> k \<in> set xs \<and> c = count_list xs k"
proof -
  have "distinct (map fst (Counter xs))"
    unfolding Counter_def by (rule distinct_counter_fold) simp
  then have "(k, c) \<in> set (Counter xs) \<longleftrightarrow> map_of (Counter xs) k = Some c"
    by simp
  also have "\<dots> \<longleftrightarrow> k \<in> set xs \<and> c = count_list xs k"
    unfolding Counter_def by (auto simp: counter_fold)
  finally show ?thesis .
qed

lemma popular_interests_counts:
  "(k, c) \<in> set (popular_interests ui) \<longleftrightarrow>
     k \<in> set (concat ui) \<and> c = count_list (concat ui) k"
  by (simp add: popular_interests_def most_common_def set_sorted_desc Counter_counts)

lemma popular_interests_sorted:
  "sorted_wrt (\<lambda>a b. snd b \<le> snd a) (popular_interests ui)"
  unfolding popular_interests_def most_common_def by (rule sorted_desc_sorted)

lemma sorted_wrt_py_slice_to: "sorted_wrt R xs \<Longrightarrow> sorted_wrt R (py_slice_to k xs)"
  by (simp add: py_slice_to_def sorted_wrt_take)

lemma set_py_slice_to: "set (py_slice_to k xs) \<subseteq> set xs"
  by (auto simp: py_slice_to_def dest: in_set_takeD)

text \<open>
  Claim C10, as the code has it: \<^verbatim>\<open>most_popular_new_interests(user_interests, max_results)\<close>
  returns at most \<open>max_results\<close> pairs when \<open>max_results\<close> is not negative; for every
  \<open>max_results\<close>, no returned interest is a member of \<open>user_interests\<close>, every returned
  count is the number of occurrences of the interest in all users' lists, and the pairs are
  listed in non-increasing order of that count.
\<close>

theorem most_popular_new_interests_contract:
  "(0 \<le> max_results \<longrightarrow>
      int (length (most_popular_new_interests ui user_interests max_results)) \<le> max_results)
   \<and> (\<forall>(interest, freq) \<in> set (most_popular_new_interests ui user_interests max_results).
        interest \<notin> set user_interests \<and> freq = count_list (concat ui) interest)
   \<and> sorted_wrt (\<lambda>a b. count_list (concat ui) (fst b) \<le> count_list (concat ui) (fst a))
        (most_popular_new_interests ui user_interests max_results)"
proof (intro conjI)
  let ?sugg = "filter (\<lambda>(interest, freq). interest \<notin> set user_interests) (popular_interests ui)"
  have res: "most_popular_new_interests ui user_interests max_results
             = py_slice_to max_results ?sugg"
    by (simp add: most_popular_new_interests_def)
  show "0 \<le> max_results \<longrightarrow>
      int (length (most_popular_new_interests ui user_interests max_results)) \<le> max_results"
    unfolding res py_slice_to_def by (auto simp: min_def)
  have sub: "set (most_popular_new_interests ui user_interests max_results) \<subseteq> set ?sugg"
    unfolding res by (rule set_py_slice_to)
  show "\<forall>(interest, freq) \<in> set (most_popular_new_interests ui user_interests max_results).
        interest \<notin> set user_interests \<and> freq = count_list (concat ui) interest"
    using sub popular_interests_counts [of _ _ ui] by fastforce
  have "sorted_wrt (\<lambda>a b. snd b \<le> snd a) (py_slice_to max_results ?sugg)"
    by (intro sorted_wrt_py_slice_to sorted_wrt_filter popular_interests_sorted)
  moreover have "\<forall>p \<in> set (py_slice_to max_results ?sugg).
                   snd p = count_list (concat ui) (fst p)"
    using sub popular_interests_counts [of _ _ ui] unfolding res by fastforce
  ultimately show
    "sorted_wrt (\<lambda>a b. count_list (concat ui) (fst b) \<le> count_list (concat ui) (fst a))
        (most_popular_new_interests ui user_interests max_results)"
    unfolding res by (auto simp: sorted_wrt_iff_nth_less)
qed

text \<open>The contract at the notebook's own call, user 1 with the default bound 5.\<close>

theorem most_popular_new_interests_contract_witness:
  "(0::int) \<le> 5
   \<and> (''Python'', 4) \<in> set (most_popular_new_interests users_interests (users_interests ! 1) 5)
   \<and> int (length (most_popular_new_interests users_interests (users_interests ! 1) 5)) \<le> 5
   \<and> ''Python'' \<notin> set (users_interests ! 1)
   \<and> 4 = count_list (concat users_interests) ''Python''"
proof -
  have m: "(''Python'', 4) \<in> set (most_popular_new_interests users_interests (users_interests ! 1) 5)"
    by code_simp
  from most_popular_new_interests_contract [of 5 users_interests "users_interests ! 1"] m
  show ?thesis by fastforce
qed

text \<open>
  With a negative bound the slice \<^verbatim>\<open>[:max_results]\<close> drops elements from the end: for
  user 1 and the bound \<open>-1\<close>, 30 of the 31 candidates are returned.
\<close>

theorem most_popular_new_interests_negative_bound:
  "length (most_popular_new_interests users_interests (users_interests ! 1) (- 1)) = 30
   \<and> \<not> int (length (most_popular_new_interests users_interests (users_interests ! 1) (- 1)))
         \<le> - 1"
proof -
  have "length (most_popular_new_interests users_interests (users_interests ! 1) (- 1)) = 30"
    by code_simp
  then show ?thesis by simp
qed

subsection \<open>Cosine similarity\<close>

lemma dot_Nil [simp]: "dot [] w = 0" "dot v [] = 0"
  by (simp_all add: dot_def)

lemma dot_Cons [simp]: "dot (x # v) (y # w) = x * y + dot v w"
  by (simp add: dot_def)

lemma dot_self_nonneg: "0 \<le> dot v v"
  by (induction v) simp_all

lemma dot_self_eq_0_iff: "dot v v = 0 \<longleftrightarrow> set v \<subseteq> {0}"
proof (induction v)
  case Nil
  then show ?case by simp
next
  case (Cons x v)
  have "x * x + dot v v = 0 \<longleftrightarrow> x * x = 0 \<and> dot v v = 0"
    using dot_self_nonneg [of v] by (intro add_nonneg_eq_0_iff) simp_all
  with Cons.IH show ?case by auto
qed

lemma dot_zero_left: "set v \<subseteq> {0} \<Longrightarrow> dot v w = 0"
proof (induction v arbitrary: w)
  case Nil
  then show ?case by simp
next
  case (Cons x v)
  then show ?case by (cases w) simp_all
qed

lemma dot_commute: "dot v w = dot w v"
proof (induction v arbitrary: w)
  case Nil
  then show ?case by simp
next
  case (Cons x v)
  then show ?case by (cases w) (simp_all add: mult.commute)
qed

lemma zero_norm_dot_zero: "sqrt (dot v v * dot w w) = 0 \<Longrightarrow> dot v w = 0"
proof -
  assume "sqrt (dot v v * dot w w) = 0"
  then have "dot v v = 0 \<or> dot w w = 0" by simp
  then show ?thesis
    using dot_zero_left [of v w] dot_zero_left [of w v] dot_commute [of v w]
    by (auto simp: dot_self_eq_0_iff)
qed

lemma cosine_similarity_eq:
  "length v = length w \<Longrightarrow>
   cosine_similarity v w =
     Inr (if dot v v = 0 \<or> dot w w = 0 then NaN
          else Num (dot v w / sqrt (dot v v * dot w w)))"
  by (simp add: cosine_similarity_def np_dot_def)

subsection \<open>Cosine similarity in \<^verbatim>\<open>int64\<close> arithmetic\<close>

lemma dot_int64_Nil [simp]: "dot_int64 [] w = 0" "dot_int64 v [] = 0"
  by (simp_all add: dot_int64_def)

lemma dot_int64_Cons [simp]: "dot_int64 (x # v) (y # w) = sint x * sint y + dot_int64 v w"
  by (simp add: dot_int64_def)

lemma word_dot_int64:
  "sum_list (map (\<lambda>(x, y). x * y) (zip v w)) = (word_of_int (dot_int64 v w) :: int64)"
proof (induction v arbitrary: w)
  case Nil
  show ?case by simp
next
  case (Cons x v)
  show ?case
  proof (cases w)
    case Nil
    then show ?thesis by simp
  next
    case (Cons y w')
    have "x * y = (word_of_int (sint x * sint y) :: int64)"
      by (simp add: wi_hom_syms)
    then show ?thesis
      using Cons.IH [of w'] Cons by (simp add: wi_hom_syms)
  qed
qed

lemma sint_word_of_int_int64:
  "- (2 ^ 63) \<le> k \<Longrightarrow> k < 2 ^ 63 \<Longrightarrow> sint (word_of_int k :: int64) = k"
  by (simp add: sint_sbintrunc' signed_take_bit_int_eq_self)

lemma dot_int64_self_nonneg: "0 \<le> dot_int64 v v"
  by (induction v) simp_all

lemma dot_int64_self_eq_0_iff: "dot_int64 v v = 0 \<longleftrightarrow> set v \<subseteq> {0}"
proof (induction v)
  case Nil
  show ?case by simp
next
  case (Cons x v)
  have "sint x * sint x + dot_int64 v v = 0 \<longleftrightarrow> sint x = 0 \<and> dot_int64 v v = 0"
    using dot_int64_self_nonneg [of v] zero_le_square [of "sint x"]
    by (smt (verit) mult_eq_0_iff)
  then show ?case using Cons by (simp add: signed_eq_0_iff)
qed

lemma dot_int64_zero_left: "set v \<subseteq> {0} \<Longrightarrow> dot_int64 v w = 0"
proof (induction v arbitrary: w)
  case Nil
  show ?case by simp
next
  case (Cons x v)
  then show ?case by (cases w) simp_all
qed

lemma dot_int64_commute: "dot_int64 v w = dot_int64 w v"
proof (induction v arbitrary: w)
  case Nil
  show ?case by simp
next
  case (Cons x v)
  then show ?case by (cases w) (simp_all add: mult.commute)
qed

lemma dot_int64_bound: "2 * \<bar>dot_int64 v w\<bar> \<le> dot_int64 v v + dot_int64 w w"
proof (induction v arbitrary: w)
  case Nil
  show ?case using dot_int64_self_nonneg [of w] by simp
next
  case (Cons x v)
  show ?case
  proof (cases w)
    case Nil
    then show ?thesis using dot_int64_self_nonneg [of "x # v"] by simp
  next
    case (Cons y w')
    have "2 * \<bar>sint x * sint y\<bar> \<le> sint x * sint x + sint y * sint y"
      using sum_squares_bound [of "sint x" "sint y"] zero_le_square [of "sint x - sint y"] zero_le_square [of "sint x + sint y"]
      by (auto simp: abs_if algebra_simps) 
    moreover have "2 * \<bar>a + b\<bar> \<le> p + q" if "2 * \<bar>a\<bar> \<le> p" "2 * \<bar>b\<bar> \<le> q" for a b p q :: int
      using that by arith
    ultimately have "2 * \<bar>sint x * sint y + dot_int64 v w'\<bar>
        \<le> (sint x * sint x + sint y * sint y) + (dot_int64 v v + dot_int64 w' w')"
      using Cons.IH [of w'] by blast
    then show ?thesis
      using Cons by simp
  qed
qed

text \<open>
  A zero vector makes the numerator and the denominator \<open>0\<close>, whatever the other vector
  is; without one, and as long as the product of the squared norms is below \<open>2 ^ 63\<close>,
  nothing wraps around.
\<close>

lemma cosine_similarity_int64_zero:
  assumes "length v = length w" and "set v \<subseteq> {0} \<or> set w \<subseteq> {0}"
  shows "cosine_similarity_int64 v w = Inr NaN64"
proof -
  have vw: "dot_int64 v w = 0"
    using assms(2) dot_int64_zero_left [of v w] dot_int64_zero_left [of w v]
    by (auto simp: dot_int64_commute [of v w])
  have "dot_int64 v v = 0 \<or> dot_int64 w w = 0"
    using assms(2) by (simp add: dot_int64_self_eq_0_iff)
  then have "(word_of_int (dot_int64 v v) :: int64) * word_of_int (dot_int64 w w) = 0"
    by auto
  then show ?thesis
    using assms(1) vw
    by (simp add: cosine_similarity_int64_def np_dot_int64_def word_dot_int64
        np_true_divide_def np_sqrt_def)
qed

lemma cosine_similarity_int64_no_wrap:
  assumes len: "length v = length w"
    and nz: "\<not> (set v \<subseteq> {0} \<or> set w \<subseteq> {0})"
    and bound: "dot_int64 v v * dot_int64 w w < 2 ^ 63"
  shows "cosine_similarity_int64 v w =
           Inr (F64 (real_of_int (dot_int64 v w)
                       / sqrt (real_of_int (dot_int64 v v * dot_int64 w w))))"
proof -
  let ?vv = "dot_int64 v v" and ?ww = "dot_int64 w w" and ?vw = "dot_int64 v w"
  have pos: "1 \<le> ?vv" "1 \<le> ?ww"
    using nz dot_int64_self_nonneg [of v] dot_int64_self_nonneg [of w]
      dot_int64_self_eq_0_iff [of v] dot_int64_self_eq_0_iff [of w] by linarith+
  have le: "?vv \<le> ?vv * ?ww" "?ww \<le> ?vv * ?ww"
    using pos by (simp_all add: mult_le_cancel_left1 mult_le_cancel_right2)
  have prod_pos: "0 < ?vv * ?ww"
    using pos by simp
  have vw: "- (2 ^ 63) \<le> ?vw" "?vw < 2 ^ 63"
    using dot_int64_bound [of v w] le bound by linarith+
  have s_vw: "sint (word_of_int ?vw :: int64) = ?vw"
    using vw by (rule sint_word_of_int_int64)
  have "sint (word_of_int (?vv * ?ww) :: int64) = ?vv * ?ww"
    using prod_pos bound by (intro sint_word_of_int_int64) linarith+
  then have s_prod: "sint (word_of_int ?vv * word_of_int ?ww :: int64) = ?vv * ?ww"
    by simp
  have "cosine_similarity_int64 v w =
          Inr (np_true_divide (word_of_int ?vw) (np_sqrt (word_of_int ?vv * word_of_int ?ww)))"
    using len
    by (simp add: cosine_similarity_int64_def np_dot_int64_def word_dot_int64)
  also have "np_sqrt (word_of_int ?vv * word_of_int ?ww) = F64 (sqrt (real_of_int (?vv * ?ww)))"
    unfolding np_sqrt_def s_prod using prod_pos by simp
  also have "np_true_divide (word_of_int ?vw) (F64 (sqrt (real_of_int (?vv * ?ww))))
               = F64 (real_of_int ?vw / sqrt (real_of_int (?vv * ?ww)))"
    unfolding np_true_divide_def s_vw using pos by simp
  finally show ?thesis .
qed

lemma dot_real_of_int64:
  "dot (map (\<lambda>x. real_of_int (sint x)) v) (map (\<lambda>x. real_of_int (sint x)) w)
   = real_of_int (dot_int64 v w)"
proof (induction v arbitrary: w)
  case Nil
  show ?case by simp
next
  case (Cons x v)
  then show ?case by (cases w) (simp_all del: of_int_sint)
qed

lemma cosine_similarity_int64_length:
  "length v \<noteq> length w \<Longrightarrow> cosine_similarity_int64 v w = Inl ValueError"
  by (simp add: cosine_similarity_int64_def np_dot_int64_def)

text \<open>
  As long as the product of the two squared norms is below \<open>2 ^ 63\<close>, no \<^verbatim>\<open>int64\<close>
  operation of \<^verbatim>\<open>cosine_similarity\<close> wraps around, and the exact definition gives numpy's
  result.
\<close>

lemma cosine_similarity_int64_exact:
  assumes "dot_int64 v v * dot_int64 w w < 2 ^ 63"
  shows "cosine_similarity_int64 v w =
           map_sum id float64_of
             (cosine_similarity (map (\<lambda>x. real_of_int (sint x)) v)
                                (map (\<lambda>x. real_of_int (sint x)) w))"
proof (cases "length v = length w")
  case False
  then show ?thesis
    by (simp add: cosine_similarity_int64_length cosine_similarity_def np_dot_def)
next
  case len: True
  show ?thesis
  proof (cases "set v \<subseteq> {0} \<or> set w \<subseteq> {0}")
    case True
    then have "dot_int64 v v = 0 \<or> dot_int64 w w = 0"
      by (simp add: dot_int64_self_eq_0_iff)
    then show ?thesis
      using len cosine_similarity_int64_zero [OF len True]
      by (auto simp add: cosine_similarity_eq dot_real_of_int64 float64_of_def simp del: of_int_sint)
  next
    case False
    then have "dot_int64 v v \<noteq> 0" "dot_int64 w w \<noteq> 0"
      by (simp_all add: dot_int64_self_eq_0_iff)
    then show ?thesis
      using len cosine_similarity_int64_no_wrap [OF len False assms]
      by (simp add: cosine_similarity_eq dot_real_of_int64 float64_of_def del: of_int_sint)
  qed
qed

lemma sint_word_of_int_bit:
  "x \<in> {0, 1} \<Longrightarrow> sint (word_of_int x :: int64) = x"
  by auto

lemma map_sint_membership:
  "set v \<subseteq> {0, 1} \<Longrightarrow> map (\<lambda>x. real_of_int (sint (word_of_int x :: int64))) v = map real_of_int v"
  by (induction v) auto

lemma dot_int64_membership:
  "set v \<subseteq> {0, 1} \<Longrightarrow>
   dot_int64 (map word_of_int v) (map word_of_int v) \<le> int (length v)"
  by (induction v) auto

text \<open>Membership vectors: for fewer than \<open>2 ^ 31\<close> entries nothing wraps.\<close>

lemma membership_cosine_exact:
  assumes "set v \<subseteq> {0, 1}" "set w \<subseteq> {0, 1}" "length v < 2 ^ 31" "length w < 2 ^ 31"
  shows "cosine_similarity_int64 (map word_of_int v) (map word_of_int w) =
           map_sum id float64_of (cosine_similarity (map real_of_int v) (map real_of_int w))"
proof -
  let ?v = "map word_of_int v :: int64 list" and ?w = "map word_of_int w :: int64 list"
  have "dot_int64 ?v ?v \<le> 2 ^ 31" "dot_int64 ?w ?w \<le> 2 ^ 31"
    using dot_int64_membership [OF assms(1)] dot_int64_membership [OF assms(2)] assms(3,4)
    by simp_all
  moreover have "0 \<le> dot_int64 ?v ?v" "0 \<le> dot_int64 ?w ?w"
    by (rule dot_int64_self_nonneg)+
  ultimately have "dot_int64 ?v ?v * dot_int64 ?w ?w \<le> 2 ^ 31 * 2 ^ 31"
    by (intro mult_mono) simp_all
  then have "dot_int64 ?v ?v * dot_int64 ?w ?w < 2 ^ 63"
    by simp
  from cosine_similarity_int64_exact [OF this] show ?thesis
    by (simp add: comp_def map_sint_membership [OF assms(1)] map_sint_membership [OF assms(2)]
          del: of_int_sint)
qed

lemma map_err_map_sum:
  "(\<And>x. x \<in> set xs \<Longrightarrow> f x = map_sum id g (h x)) \<Longrightarrow>
   map_err f xs = map_sum id (map g) (map_err h xs)"
proof (induction xs)
  case Nil
  show ?case by simp
next
  case (Cons x xs)
  have "map_err f xs = map_sum id (map g) (map_err h xs)"
    using Cons.prems by (intro Cons.IH) simp
  moreover have "f x = map_sum id g (h x)"
    by (rule Cons.prems) simp
  ultimately show ?case
    by (simp split: sum.splits)
qed

lemma similarity_matrix_int64_exact:
  assumes "\<And>r. r \<in> set m \<Longrightarrow> set r \<subseteq> {0, 1} \<and> length r < 2 ^ 31"
  shows "similarity_matrix_int64 m = map_sum id (map (map float64_of)) (similarity_matrix m)"
  unfolding similarity_matrix_int64_def similarity_matrix_def
proof (rule map_err_map_sum)
  fix vi assume vi: "vi \<in> set m"
  show "map_err (\<lambda>vj. cosine_similarity_int64 (map word_of_int vi) (map word_of_int vj)) m
        = map_sum id (map float64_of)
            (map_err (\<lambda>vj. cosine_similarity (map real_of_int vi) (map real_of_int vj)) m)"
  proof (rule map_err_map_sum)
    fix vj assume "vj \<in> set m"
    with vi assms show "cosine_similarity_int64 (map word_of_int vi) (map word_of_int vj)
        = map_sum id float64_of (cosine_similarity (map real_of_int vi) (map real_of_int vj))"
      by (intro membership_cosine_exact) simp_all
  qed
qed

text \<open>
  Claim C5, as the code has it: for two \<^verbatim>\<open>int64\<close> vectors of the same length,
  \<^verbatim>\<open>cosine_similarity\<close> returns \<^verbatim>\<open>nan\<close> (not \<open>0\<close>) when one of them is all-zero; when neither
  is and the product of the two squared norms is below \<open>2 ^ 63\<close>, it returns
  \<open>v \<bullet> w / sqrt ((v \<bullet> v) * (w \<bullet> w))\<close>.
\<close>

theorem cosine_similarity_zero_norm_nan:
  assumes "length v = length w"
  shows "(set v \<subseteq> {0} \<or> set w \<subseteq> {0} \<longrightarrow> cosine_similarity_int64 v w = Inr NaN64)
       \<and> (\<not> (set v \<subseteq> {0} \<or> set w \<subseteq> {0}) \<and> dot_int64 v v * dot_int64 w w < 2 ^ 63 \<longrightarrow>
            cosine_similarity_int64 v w =
              Inr (F64 (real_of_int (dot_int64 v w)
                          / sqrt (real_of_int (dot_int64 v v * dot_int64 w w)))))"
  using cosine_similarity_int64_zero [OF assms] cosine_similarity_int64_no_wrap [OF assms]
  by blast

theorem cosine_similarity_zero_norm_nan_witness:
  "length [1, 1, 1, 1 :: int64] = length [1, 0, 0, 0 :: int64]
   \<and> \<not> (set [1, 1, 1, 1 :: int64] \<subseteq> {0} \<or> set [1, 0, 0, 0 :: int64] \<subseteq> {0})
   \<and> dot_int64 [1, 1, 1, 1] [1, 1, 1, 1] * dot_int64 [1, 0, 0, 0] [1, 0, 0, 0] < 2 ^ 63
   \<and> cosine_similarity_int64 [1, 1, 1, 1] [1, 0, 0, 0] = Inr (F64 (1 / 2))
   \<and> set [0, 0, 0, 0 :: int64] \<subseteq> {0}
   \<and> cosine_similarity_int64 [0, 0, 0, 0] [1, 0, 0, 0] = Inr NaN64"
  using cosine_similarity_zero_norm_nan [of "[1, 1, 1, 1]" "[1, 0, 0, 0]"]
    cosine_similarity_zero_norm_nan [of "[0, 0, 0, 0]" "[1, 0, 0, 0]"]
  by simp

lemmas int64_eval = cosine_similarity_int64_def np_dot_int64_def np_true_divide_def np_sqrt_def

text \<open>
  A zero vector against a unit vector: the result is \<^verbatim>\<open>nan\<close>, not \<open>0\<close>. The vector
  \<open>[55109]\<close> against itself: the product of the squared norms is above \<open>2 ^ 63\<close>, wraps
  around to a negative \<^verbatim>\<open>int64\<close>, and the result is \<^verbatim>\<open>nan\<close>, not the quotient.
\<close>

theorem cosine_similarity_zero_vector_not_zero:
  "cosine_similarity_int64 [0, 0] [1, 0] = Inr NaN64
   \<and> cosine_similarity_int64 [0, 0] [1, 0] \<noteq> Inr (F64 0)
   \<and> cosine_similarity_int64 [55109] [55109] = Inr NaN64
   \<and> dot_int64 [55109] [55109] * dot_int64 [55109] [55109] = 9223380425197538161"
  by (simp add: int64_eval)

lemma cosine_similarity_int64_self:
  assumes "\<not> set v \<subseteq> {0}" "dot_int64 v v * dot_int64 v v < 2 ^ 63"
  shows "cosine_similarity_int64 v v = Inr (F64 1)"
proof -
  have "dot_int64 v v \<noteq> 0" "0 \<le> dot_int64 v v"
    using assms(1) by (simp_all add: dot_int64_self_eq_0_iff dot_int64_self_nonneg)
  then have "sqrt (real_of_int (dot_int64 v v * dot_int64 v v)) = real_of_int (dot_int64 v v)"
    by simp
  with \<open>dot_int64 v v \<noteq> 0\<close> show ?thesis
    using cosine_similarity_int64_no_wrap [of v v] assms by simp
qed

subsection \<open>The similarity matrices\<close>

lemma map_err_Inr:
  "(\<And>x. x \<in> set xs \<Longrightarrow> f x = Inr (g x)) \<Longrightarrow> map_err f xs = Inr (map g xs)"
  by (induction xs) simp_all

lemma similarity_matrix_eq:
  assumes "\<And>r. r \<in> set m \<Longrightarrow> length r = n"
  shows "similarity_matrix m =
           Inr (map (\<lambda>vi. map (\<lambda>vj. cosine_value (map real_of_int vi) (map real_of_int vj)) m) m)"
  unfolding similarity_matrix_def
proof (rule map_err_Inr)
  fix vi assume vi: "vi \<in> set m"
  show "map_err (\<lambda>vj. cosine_similarity (map real_of_int vi) (map real_of_int vj)) m
        = Inr (map (\<lambda>vj. cosine_value (map real_of_int vi) (map real_of_int vj)) m)"
  proof (rule map_err_Inr)
    fix vj assume "vj \<in> set m"
    with vi assms have "length (map real_of_int vi) = length (map real_of_int vj)" by simp
    then show "cosine_similarity (map real_of_int vi) (map real_of_int vj)
               = Inr (cosine_value (map real_of_int vi) (map real_of_int vj))"
      by (simp add: cosine_similarity_eq cosine_value_def)
  qed
qed

lemma distinct_unique_interests: "distinct (unique_interests ui)"
  by (simp add: unique_interests_def)

lemma set_unique_interests: "set (unique_interests ui) = set (concat ui)"
  by (simp add: unique_interests_def)

lemma sorted_unique_interests: "sorted (unique_interests ui)"
  by (simp add: unique_interests_def)

lemma length_generate_user_interest_vector:
  "length (generate_user_interest_vector ui a) = length (unique_interests ui)"
  by (simp add: generate_user_interest_vector_def)

lemma dot_indicator:
  "dot (map (\<lambda>x. real_of_int (if P x then 1 else 0)) xs)
       (map (\<lambda>x. real_of_int (if Q x then 1 else 0)) xs)
   = real (length (filter (\<lambda>x. P x \<and> Q x) xs))"
  by (induction xs) simp_all

lemma dot_interest_vectors:
  assumes "set a \<subseteq> set (concat ui)"
  shows "dot (map real_of_int (generate_user_interest_vector ui a))
             (map real_of_int (generate_user_interest_vector ui b))
         = real (card (set a \<inter> set b))"
proof -
  have "dot (map real_of_int (generate_user_interest_vector ui a))
            (map real_of_int (generate_user_interest_vector ui b))
        = real (length (filter (\<lambda>x. x \<in> set a \<and> x \<in> set b) (unique_interests ui)))"
    unfolding generate_user_interest_vector_def map_map comp_def by (rule dot_indicator)
  also have "length (filter (\<lambda>x. x \<in> set a \<and> x \<in> set b) (unique_interests ui))
             = card ({x. x \<in> set a \<and> x \<in> set b} \<inter> set (unique_interests ui))"
    by (rule distinct_length_filter) (rule distinct_unique_interests)
  also have "{x. x \<in> set a \<and> x \<in> set b} \<inter> set (unique_interests ui) = set a \<inter> set b"
    using assms by (auto simp: set_unique_interests)
  finally show ?thesis .
qed

lemma user_similarities_eq:
  "user_similarities ui =
     Inr (map (\<lambda>a. map (\<lambda>b.
            cosine_value (map real_of_int (generate_user_interest_vector ui a))
                         (map real_of_int (generate_user_interest_vector ui b))) ui) ui)"
proof -
  have "similarity_matrix (user_interest_matrix ui) =
     Inr (map (\<lambda>vi. map (\<lambda>vj. cosine_value (map real_of_int vi) (map real_of_int vj))
              (user_interest_matrix ui)) (user_interest_matrix ui))"
    by (rule similarity_matrix_eq [where n = "length (unique_interests ui)"])
       (auto simp: user_interest_matrix_def length_generate_user_interest_vector)
  then show ?thesis
    by (simp add: user_similarities_def user_interest_matrix_def comp_def)
qed

lemma cosine_value_interest_vectors:
  assumes "a \<in> set ui" "b \<in> set ui"
  shows "cosine_value (map real_of_int (generate_user_interest_vector ui a))
                      (map real_of_int (generate_user_interest_vector ui b)) = user_sim a b"
proof -
  have sub: "set a \<subseteq> set (concat ui)" "set b \<subseteq> set (concat ui)"
    using assms by auto
  have "card (set a) = 0 \<longleftrightarrow> a = []" "card (set b) = 0 \<longleftrightarrow> b = []"
    by simp_all
  then show ?thesis
    unfolding cosine_value_def user_sim_def
    by (simp add: dot_interest_vectors [OF sub(1)] dot_interest_vectors [OF sub(2)])
qed

lemma user_similarities_closed:
  "user_similarities ui = Inr (map (\<lambda>a. map (\<lambda>b. user_sim a b) ui) ui)"
  unfolding user_similarities_eq
  by (simp add: cosine_value_interest_vectors)

subsection \<open>Similar users\<close>

lemma py_index_valid:
  "0 \<le> i \<Longrightarrow> i < int (length xs) \<Longrightarrow> py_index xs i = Inr (xs ! nat i)"
  by (simp add: py_index_def)

lemma py_index_nat: "j < length xs \<Longrightarrow> py_index xs (int j) = Inr (xs ! j)"
  by (simp add: py_index_def)

lemma similar_pair_Some:
  "similar_pair this_id p = Some q \<longleftrightarrow>
     (\<exists>s. snd p = Num s \<and> this_id \<noteq> int (fst p) \<and> 0 < s \<and> q = (fst p, s))"
  by (cases p; cases "snd p") (auto simp: similar_pair_def)

lemma similar_pairs_set:
  "set (List.map_filter (similar_pair this_id) (enumerate 0 row)) =
     {(j, s). j < length row \<and> this_id \<noteq> int j \<and> 0 < s \<and> row ! j = Num s}"
proof -
  have "set (List.map_filter (similar_pair this_id) (enumerate 0 row)) =
          {q. \<exists>p \<in> set (enumerate 0 row). similar_pair this_id p = Some q}"
    by (force simp: List.map_filter_def)
  also have "\<dots> = {(j, s). j < length row \<and> this_id \<noteq> int j \<and> 0 < s \<and> row ! j = Num s}"
    by (auto simp: similar_pair_Some in_set_enumerate_eq Bex_def)
  finally show ?thesis .
qed

lemma similar_pairs_increasing:
  "sorted_wrt (\<lambda>a b. fst a < fst b) (List.map_filter (similar_pair this_id) (enumerate n row))"
proof -
  have "sorted_wrt (\<lambda>a b. fst a < fst b) (enumerate n row)"
    using sorted_wrt_map [of "(<)" fst "enumerate n row"] by simp
  then have "sorted_wrt (\<lambda>a b. fst a < fst b)
               (filter (\<lambda>p. similar_pair this_id p \<noteq> None) (enumerate n row))"
    by (rule sorted_wrt_filter)
  moreover have "fst (the (similar_pair this_id p)) = fst p"
    if "similar_pair this_id p \<noteq> None" for p
  proof -
    from that obtain q where q: "similar_pair this_id p = Some q" by auto
    then have "fst q = fst p" unfolding similar_pair_Some by auto
    with q show ?thesis by simp
  qed
  ultimately show ?thesis
    unfolding List.map_filter_def sorted_wrt_map
    by (auto elim!: sorted_wrt_mono_rel [rotated])
qed

lemma sorted_wrt_fst_distinct:
  "sorted_wrt (\<lambda>a b. fst a < (fst b :: nat)) ps \<Longrightarrow> distinct (map fst ps)"
  by (simp add: strict_sorted_iff flip: sorted_wrt_map)

lemma distinct_map_sorted_desc:
  "distinct (map f (sorted_desc key xs)) = distinct (map f xs)"
  by (simp add: distinct_map distinct_sorted_desc set_sorted_desc)

lemma user_similarities_row:
  assumes "0 \<le> user_id" "user_id < int (length ui)"
  shows "\<exists>sims. user_similarities ui = Inr sims \<and>
           py_index sims user_id = Inr (map (user_sim (ui ! nat user_id)) ui)"
  using assms by (simp add: user_similarities_closed py_index_valid)

lemma cosine_similarity_users:
  assumes "i < length ui" "j < length ui"
  shows "cosine_similarity (map real_of_int (user_interest_matrix ui ! i))
                           (map real_of_int (user_interest_matrix ui ! j))
         = Inr (user_sim (ui ! i) (ui ! j))"
proof -
  have "length (map real_of_int (user_interest_matrix ui ! i))
        = length (map real_of_int (user_interest_matrix ui ! j))"
    using assms by (simp add: user_interest_matrix_def length_generate_user_interest_vector)
  then show ?thesis
    using assms
    by (simp add: cosine_similarity_eq user_interest_matrix_def
          cosine_value_interest_vectors [unfolded cosine_value_def])
qed

lemma get_similar_users_eq:
  assumes "0 \<le> user_id" "user_id < int (length ui)"
  shows "get_similar_users ui user_id =
           Inr (sorted_desc snd (List.map_filter (similar_pair user_id)
                  (enumerate 0 (map (user_sim (ui ! nat user_id)) ui))))"
  using user_similarities_row [OF assms]
  by (auto simp: get_similar_users_def)

text \<open>
  Claim C1: for a user index \<open>0 \<le> user_id < N\<close>, \<^verbatim>\<open>get_similar_users\<close> returns exactly
  the pairs (other user, similarity) of the other users whose cosine similarity to the user
  is positive, each once, in descending order of similarity with equal similarities in
  ascending order of the user index; the user is not in the result.
\<close>

theorem get_similar_users_contract:
  assumes "0 \<le> user_id" "user_id < int (length ui)"
  shows "\<exists>ps. get_similar_users ui user_id = Inr ps
           \<and> set ps = {(j, s). j < length ui \<and> j \<noteq> nat user_id \<and> 0 < s
                          \<and> cosine_similarity
                               (map real_of_int (user_interest_matrix ui ! nat user_id))
                               (map real_of_int (user_interest_matrix ui ! j)) = Inr (Num s)}
           \<and> distinct (map fst ps)
           \<and> sorted_wrt (\<lambda>a b. snd b < snd a \<or> (snd a = snd b \<and> fst a < fst b)) ps
           \<and> nat user_id \<notin> fst ` set ps"
proof -
  let ?row = "map (user_sim (ui ! nat user_id)) ui"
  let ?pairs = "List.map_filter (similar_pair user_id) (enumerate 0 ?row)"
  let ?ps = "sorted_desc snd ?pairs"
  have u: "nat user_id < length ui" "int (nat user_id) = user_id"
    using assms by simp_all
  have res: "get_similar_users ui user_id = Inr ?ps"
    by (rule get_similar_users_eq [OF assms])
  have set: "set ?ps = {(j, s). j < length ui \<and> j \<noteq> nat user_id \<and> 0 < s
                          \<and> cosine_similarity
                               (map real_of_int (user_interest_matrix ui ! nat user_id))
                               (map real_of_int (user_interest_matrix ui ! j)) = Inr (Num s)}"
    using u by (auto simp: set_sorted_desc similar_pairs_set cosine_similarity_users)
  have inc: "sorted_wrt (\<lambda>a b. fst a < fst b) ?pairs"
    by (rule similar_pairs_increasing)
  have dist: "distinct (map fst ?ps)"
    unfolding distinct_map_sorted_desc by (rule sorted_wrt_fst_distinct [OF inc])
  have sorted: "sorted_wrt (\<lambda>a b. snd b < snd a \<or> (snd a = snd b \<and> fst a < fst b)) ?ps"
    by (rule sorted_desc_tie [OF inc])
  have "nat user_id \<notin> fst ` set ?ps"
    unfolding set by auto
  with res set dist sorted show ?thesis by blast
qed

lemma div_sqrt_le_iff:
  assumes "0 < b" "0 < d" "0 \<le> a" "0 \<le> c"
  shows "a / sqrt b \<le> c / sqrt d \<longleftrightarrow> a\<^sup>2 * d \<le> c\<^sup>2 * b"
proof -
  have "a / sqrt b \<le> c / sqrt d \<longleftrightarrow> a * sqrt d \<le> c * sqrt b"
    using assms by (simp add: field_simps)
  also have "\<dots> \<longleftrightarrow> (a * sqrt d)\<^sup>2 \<le> (c * sqrt b)\<^sup>2"
    using assms by (subst power_mono_iff) simp_all
  also have "\<dots> \<longleftrightarrow> a\<^sup>2 * d \<le> c\<^sup>2 * b"
    using assms by (simp add: power_mult_distrib)
  finally show ?thesis .
qed

lemma similarity_row_0:
  "map (user_sim (users_interests ! 0)) users_interests =
     [Num 1, Num (2 / sqrt 35), Num 0, Num 0, Num 0, Num (1 / sqrt 42), Num 0, Num 0,
      Num (1 / sqrt 28), Num (3 / sqrt 28), Num 0, Num 0, Num 0, Num (1 / sqrt 35), Num 0]"
  by (simp add: users_interests_def user_sim_def)

text \<open>
  The notebook prints \<^verbatim>\<open>get_similar_users(0)\<close> as users 9, 1, 8, 13, 5 with the
  similarities 0.567, 0.338, 0.189, 0.169, 0.154.
\<close>

lemma similar_users_0:
  "get_similar_users users_interests 0 =
     Inr [(9, 3 / sqrt 28), (1, 2 / sqrt 35), (8, 1 / sqrt 28), (13, 1 / sqrt 35), (5, 1 / sqrt 42)]"
proof -
  have h: "(0::int) \<le> 0" "0 < int (length users_interests)"
    by (simp_all add: users_interests_def)
  have e: "enumerate 0 (map (user_sim (users_interests ! nat 0)) users_interests) =
     [(0, Num 1), (1, Num (2 / sqrt 35)), (2, Num 0), (3, Num 0), (4, Num 0),
      (5, Num (1 / sqrt 42)), (6, Num 0), (7, Num 0), (8, Num (1 / sqrt 28)),
      (9, Num (3 / sqrt 28)), (10, Num 0), (11, Num 0), (12, Num 0),
      (13, Num (1 / sqrt 35)), (14, Num 0)]"
    using similarity_row_0 by (simp add: enumerate_eq_zip upt_rec)
  show ?thesis
    unfolding get_similar_users_eq [OF h] e
    by (simp add: List.map_filter_def similar_pair_def sorted_desc_def div_sqrt_le_iff)
qed

theorem get_similar_users_contract_witness:
  "(0::int) \<le> 0 \<and> 0 < int (length users_interests)
   \<and> get_similar_users users_interests 0 =
        Inr [(9, 3 / sqrt 28), (1, 2 / sqrt 35), (8, 1 / sqrt 28), (13, 1 / sqrt 35),
             (5, 1 / sqrt 42)]
   \<and> sorted_wrt (\<lambda>a b. snd b < snd a \<or> (snd a = snd b \<and> fst a < fst b))
        [(9, 3 / sqrt 28), (1, 2 / sqrt 35), (8, 1 / sqrt 28), (13, 1 / sqrt 35),
         (5 :: nat, 1 / sqrt 42)]
   \<and> cosine_similarity (map real_of_int (user_interest_matrix users_interests ! nat 0))
        (map real_of_int (user_interest_matrix users_interests ! 9)) = Inr (Num (3 / sqrt 28))"
proof -
  have h: "(0::int) \<le> 0" "0 < int (length users_interests)"
    by (simp_all add: users_interests_def)
  from get_similar_users_contract [OF h]
  obtain ps where ps: "get_similar_users users_interests 0 = Inr ps"
    and set: "set ps = {(j, s). j < length users_interests \<and> j \<noteq> nat 0 \<and> 0 < s
                \<and> cosine_similarity
                     (map real_of_int (user_interest_matrix users_interests ! nat 0))
                     (map real_of_int (user_interest_matrix users_interests ! j)) = Inr (Num s)}"
    and sorted: "sorted_wrt (\<lambda>a b. snd b < snd a \<or> (snd a = snd b \<and> fst a < fst b)) ps"
    by blast
  from ps have eq: "ps = [(9, 3 / sqrt 28), (1, 2 / sqrt 35), (8, 1 / sqrt 28),
                          (13, 1 / sqrt 35), (5, 1 / sqrt 42)]"
    by (simp add: similar_users_0)
  then have "(9, 3 / sqrt 28) \<in> set ps" by simp
  with set have "cosine_similarity
                     (map real_of_int (user_interest_matrix users_interests ! nat 0))
                     (map real_of_int (user_interest_matrix users_interests ! 9))
                 = Inr (Num (3 / sqrt 28))"
    by blast
  with h ps sorted show ?thesis unfolding eq by blast
qed

subsection \<open>The interest-similarity matrix and similar interests\<close>

lemma map_err_map: "map_err f (map g xs) = map_err (\<lambda>x. f (g x)) xs"
  by (induction xs) (simp_all split: sum.splits)

lemma length_user_interest_matrix: "length (user_interest_matrix ui) = length ui"
  by (simp add: user_interest_matrix_def)

lemma nth_generate_user_interest_vector:
  "j < length (unique_interests ui) \<Longrightarrow>
   generate_user_interest_vector ui a ! j = (if unique_interests ui ! j \<in> set a then 1 else 0)"
  by (simp add: generate_user_interest_vector_def)

lemma interest_user_matrix_eq:
  "interest_user_matrix ui =
     Inr (map (\<lambda>x. map (\<lambda>a. if x \<in> set a then 1 else 0) ui) (unique_interests ui))"
proof -
  let ?col = "\<lambda>x. map (\<lambda>a. if x \<in> set a then 1 else 0 :: int) ui"
  have inner: "map_err (\<lambda>user_interest_vector. py_index user_interest_vector (int (fst p)))
                 (user_interest_matrix ui) = Inr (?col (snd p))"
    if p: "p \<in> set (enumerate 0 (unique_interests ui))" for p
  proof -
    from p have j: "fst p < length (unique_interests ui)"
      and x: "snd p = unique_interests ui ! fst p"
      by (auto simp: in_set_enumerate_eq)
    have "map_err (\<lambda>a. py_index (generate_user_interest_vector ui a) (int (fst p))) ui
          = Inr (map (\<lambda>a. if snd p \<in> set a then 1 else 0) ui)"
      by (rule map_err_Inr)
         (simp add: py_index_nat j x length_generate_user_interest_vector
            nth_generate_user_interest_vector)
    then show ?thesis
      by (simp add: user_interest_matrix_def map_err_map)
  qed
  have "interest_user_matrix ui = Inr (map (\<lambda>p. ?col (snd p)) (enumerate 0 (unique_interests ui)))"
    unfolding interest_user_matrix_def
    by (rule map_err_Inr) (simp add: case_prod_beta inner)
  also have "map (\<lambda>p. ?col (snd p)) (enumerate 0 (unique_interests ui))
             = map ?col (unique_interests ui)"
    using map_map [of ?col snd "enumerate 0 (unique_interests ui)"] by (simp add: comp_def)
  finally show ?thesis .
qed

lemma cosine_value_columns:
  "cosine_value (map (\<lambda>a. real_of_int (if x \<in> set a then 1 else 0)) ui)
                (map (\<lambda>a. real_of_int (if y \<in> set a then 1 else 0)) ui)
   = interest_sim ui x y"
  unfolding cosine_value_def interest_sim_def co_holders_def dot_indicator
  by simp

lemma interest_similarities_closed:
  "interest_similarities ui =
     Inr (map (\<lambda>x. map (\<lambda>y. interest_sim ui x y) (unique_interests ui)) (unique_interests ui))"
proof -
  let ?m = "map (\<lambda>x. map (\<lambda>a. if x \<in> set a then 1 else 0 :: int) ui) (unique_interests ui)"
  have "similarity_matrix ?m =
     Inr (map (\<lambda>vi. map (\<lambda>vj. cosine_value (map real_of_int vi) (map real_of_int vj)) ?m) ?m)"
    by (rule similarity_matrix_eq [where n = "length ui"]) auto
  then show ?thesis
    by (simp add: interest_similarities_def interest_user_matrix_eq comp_def cosine_value_columns)
qed

lemma co_holders_pos: "x \<in> set (concat ui) \<Longrightarrow> 0 < co_holders ui x x"
  by (auto simp: co_holders_def length_greater_0_conv filter_empty_conv simp del: length_greater_0_conv)

lemma similar_interest_pairs_eq:
  "(\<And>p. p \<in> set ps \<Longrightarrow> fst p < length names) \<Longrightarrow>
   similar_interest_pairs names interest_id ps =
     Inr (map (\<lambda>(j, s). (names ! j, s)) (List.map_filter (similar_pair interest_id) ps))"
proof (induction ps)
  case Nil
  then show ?case by (simp add: List.map_filter_def)
next
  case (Cons p ps)
  have IH: "similar_interest_pairs names interest_id ps =
     Inr (map (\<lambda>(j, s). (names ! j, s)) (List.map_filter (similar_pair interest_id) ps))"
    using Cons.prems by (intro Cons.IH) simp
  show ?case
  proof (cases "similar_pair interest_id p")
    case None
    then show ?thesis by (simp add: IH List.map_filter_def)
  next
    case (Some q)
    then have "fst q = fst p" unfolding similar_pair_Some by auto
    with Cons.prems [of p] have "fst q < length names" by simp
    then show ?thesis
      using Some by (cases q) (simp add: IH List.map_filter_def py_index_nat)
  qed
qed

lemma get_similar_interests_eq:
  assumes "0 \<le> interest_id" "interest_id < int (length (unique_interests ui))"
  shows "get_similar_interests ui interest_id =
           Inr (sorted_desc snd
                 (map (\<lambda>(j, s). (unique_interests ui ! j, s))
                    (List.map_filter (similar_pair interest_id)
                       (enumerate 0 (map (interest_sim ui (unique_interests ui ! nat interest_id))
                                       (unique_interests ui))))))"
proof -
  let ?row = "map (interest_sim ui (unique_interests ui ! nat interest_id)) (unique_interests ui)"
  have "similar_interest_pairs (unique_interests ui) interest_id (enumerate 0 ?row)
        = Inr (map (\<lambda>(j, s). (unique_interests ui ! j, s))
                 (List.map_filter (similar_pair interest_id) (enumerate 0 ?row)))"
    by (rule similar_interest_pairs_eq) (simp add: in_set_enumerate_eq)
  then show ?thesis
    using assms
    by (simp add: get_similar_interests_def interest_similarities_closed py_index_valid)
qed

subsection \<open>Accumulating weights in the dictionary\<close>

lemma keys_dict_add:
  "map fst (dict_add k s d) = (if k \<in> fst ` set d then map fst d else map fst d @ [k])"
  by (induction d) (force split: if_splits)+

lemma map_of_dict_add:
  "map_of (dict_add k s d) =
     (map_of d)(k \<mapsto> (case map_of d k of None \<Rightarrow> 0 | Some w \<Rightarrow> w) + s)"
  by (induction d) (auto simp: fun_eq_iff)

lemma add_similar_interests_append:
  "add_similar_interests (xs @ ys) d = add_similar_interests ys (add_similar_interests xs d)"
  by (induction xs d rule: add_similar_interests.induct) simp_all

lemma add_similar_interests_snoc:
  "add_similar_interests (cs @ [(k, s)]) d = dict_add k s (add_similar_interests cs d)"
  by (simp add: add_similar_interests_append)

lemma add_user_interests_eq:
  "add_user_interests s interests d = add_similar_interests (map (\<lambda>i. (i, s)) interests) d"
  by (induction interests arbitrary: d) simp_all

lemma key_set_dict_add: "fst ` set (dict_add k s d) = insert k (fst ` set d)"
  using keys_dict_add [of k s d, THEN arg_cong, of set] by (simp split: if_splits) blast+

lemma key_set_add_similar_interests:
  "fst ` set (add_similar_interests cs d) = fst ` set d \<union> fst ` set cs"
  by (induction cs d rule: add_similar_interests.induct) (auto simp: key_set_dict_add)

lemma filter_key_absent: "k \<notin> fst ` set cs \<Longrightarrow> filter (\<lambda>c. fst c = k) cs = []"
  by (induction cs) auto

lemma distinct_keys_add_similar_interests:
  "distinct (map fst d) \<Longrightarrow> distinct (map fst (add_similar_interests cs d))"
  by (induction cs d rule: add_similar_interests.induct) (simp_all add: keys_dict_add)

lemma map_of_add_similar_interests:
  "map_of (add_similar_interests cs d) k =
     (if k \<in> fst ` set cs
      then Some ((case map_of d k of None \<Rightarrow> 0 | Some w \<Rightarrow> w)
                 + sum_list (map snd (filter (\<lambda>c. fst c = k) cs)))
      else map_of d k)"
proof (induction cs d rule: add_similar_interests.induct)
  case (1 d)
  then show ?case by simp
next
  case (2 k' s rest d)
  show ?case
    by (auto simp add: "2.IH" map_of_dict_add filter_key_absent split: option.splits)
qed

lemma weight_add_similar_interests:
  assumes "(k, w) \<in> set (add_similar_interests cs [])"
  shows "w = sum_list (map snd (filter (\<lambda>c. fst c = k) cs))"
proof -
  have "distinct (map fst (add_similar_interests cs []))"
    by (rule distinct_keys_add_similar_interests) simp
  with assms have "map_of (add_similar_interests cs []) k = Some w" by simp
  then show ?thesis
    by (simp add: map_of_add_similar_interests split: if_splits)
qed

lemma first_pos_less: "x \<in> set xs \<Longrightarrow> first_pos xs x < length xs"
  unfolding first_pos_def by (induction xs) auto

lemma first_pos_snoc_old: "y \<in> set xs \<Longrightarrow> first_pos (xs @ [x]) y = first_pos xs y"
  unfolding first_pos_def by (subst takeWhile_append1 [of y]) simp_all

lemma first_pos_snoc_new: "x \<notin> set xs \<Longrightarrow> first_pos (xs @ [x]) x = length xs"
  unfolding first_pos_def by (subst takeWhile_append2) auto

lemma keys_first_seen:
  "sorted_wrt (\<lambda>a b. first_pos (map fst cs) a < first_pos (map fst cs) b)
     (map fst (add_similar_interests cs []))"
proof (induction cs rule: rev_induct)
  case Nil
  then show ?case by simp
next
  case (snoc c cs)
  obtain k s where c: "c = (k, s)" by (cases c)
  let ?D = "add_similar_interests cs []"
  have keys: "set (map fst ?D) = set (map fst cs)"
    using key_set_add_similar_interests [of cs "[]"] by simp
  have old: "sorted_wrt (\<lambda>a b. first_pos (map fst cs @ [k]) a < first_pos (map fst cs @ [k]) b)
               (map fst ?D)"
    using snoc.IH
  proof (rule sorted_wrt_mono_rel [rotated])
    fix a b
    assume "a \<in> set (map fst ?D)" "b \<in> set (map fst ?D)"
      and "first_pos (map fst cs) a < first_pos (map fst cs) b"
    then show "first_pos (map fst cs @ [k]) a < first_pos (map fst cs @ [k]) b"
      unfolding keys by (simp only: first_pos_snoc_old)
  qed
  show ?case
  proof (cases "k \<in> set (map fst ?D)")
    case True
    then have "map fst (dict_add k s ?D) = map fst ?D"
      by (simp add: keys_dict_add)
    with old show ?thesis
      by (simp add: c add_similar_interests_snoc)
  next
    case False
    then have new: "k \<notin> set (map fst cs)" unfolding keys .
    have last: "\<forall>a\<in>set (map fst ?D).
                 first_pos (map fst cs @ [k]) a < first_pos (map fst cs @ [k]) k"
      unfolding keys
    proof
      fix a assume a: "a \<in> set (map fst cs)"
      then have "first_pos (map fst cs @ [k]) a = first_pos (map fst cs) a"
        by (rule first_pos_snoc_old)
      moreover have "first_pos (map fst cs) a < length (map fst cs)"
        using a by (rule first_pos_less)
      moreover have "first_pos (map fst cs @ [k]) k = length (map fst cs)"
        using new by (rule first_pos_snoc_new)
      ultimately show "first_pos (map fst cs @ [k]) a < first_pos (map fst cs @ [k]) k"
        by simp
    qed
    from False have "map fst (dict_add k s ?D) = map fst ?D @ [k]"
      by (simp add: keys_dict_add)
    with old last show ?thesis
      by (simp add: c add_similar_interests_snoc sorted_wrt_append del: set_map)
  qed
qed

subsection \<open>User-based suggestions\<close>

lemma similar_users_loop_eq:
  "(\<And>p. p \<in> set similar \<Longrightarrow> fst p < length ui) \<Longrightarrow>
   similar_users_loop ui similar d = Inr (add_similar_interests (user_contributions ui similar) d)"
proof (induction ui similar d rule: similar_users_loop.induct)
  case (1 ui d)
  then show ?case by (simp add: user_contributions_def)
next
  case (2 ui v s rest d)
  have v: "v < length ui" using "2.prems" [of "(v, s)"] by simp
  have "similar_users_loop ui rest (add_user_interests s (ui ! v) d)
        = Inr (add_similar_interests (user_contributions ui rest) (add_user_interests s (ui ! v) d))"
    using "2.prems" by (intro "2.IH") (simp_all add: py_index_nat v)
  then show ?case
    by (simp add: py_index_nat v user_contributions_def add_user_interests_eq
          add_similar_interests_append)
qed

lemma exclude_current_eq:
  assumes "0 \<le> user_id" "user_id < int (length ui)"
  shows "exclude_current ui user_id xs = Inr (filter (\<lambda>(i, w). i \<notin> set (ui ! nat user_id)) xs)"
  by (induction xs) (auto simp: py_index_valid [OF assms])

lemma get_similar_users_bounds:
  assumes "0 \<le> user_id" "user_id < int (length ui)"
    and "get_similar_users ui user_id = Inr similar" "p \<in> set similar"
  shows "fst p < length ui" "0 < snd p"
  using assms(3,4) unfolding get_similar_users_eq [OF assms(1,2)]
  by (auto simp: set_sorted_desc similar_pairs_set)

lemma user_based_suggestions_eq:
  assumes "0 \<le> user_id" "user_id < int (length ui)"
    and "get_similar_users ui user_id = Inr similar"
  shows "user_based_suggestions ui user_id include_current =
           Inr (let suggestions =
                      sorted_desc snd (add_similar_interests (user_contributions ui similar) [])
                in if include_current then suggestions
                   else filter (\<lambda>(i, w). i \<notin> set (ui ! nat user_id)) suggestions)"
proof -
  have "similar_users_loop ui similar []
        = Inr (add_similar_interests (user_contributions ui similar) [])"
    by (rule similar_users_loop_eq) (rule get_similar_users_bounds [OF assms])
  then show ?thesis
    by (simp add: user_based_suggestions_def assms(3) exclude_current_eq [OF assms(1,2)] Let_def)
qed

lemma sum_single_user:
  "sum_list (map snd (filter (\<lambda>c. fst c = i) (map (\<lambda>j. (j, s)) xs))) = real (count_list xs i) * s"
  by (induction xs) (simp_all add: algebra_simps)

lemma sum_user_contributions:
  "sum_list (map snd (filter (\<lambda>c. fst c = i) (user_contributions ui similar)))
   = sum_list (map (\<lambda>(v, s). real (count_list (ui ! v) i) * s) similar)"
  unfolding user_contributions_def
  by (induction similar) (auto simp: sum_single_user)

lemma count_list_distinct: "distinct xs \<Longrightarrow> count_list xs x = (if x \<in> set xs then 1 else 0)"
  by (induction xs) auto

lemma sum_holders:
  assumes "\<And>p. p \<in> set similar \<Longrightarrow> distinct (ui ! fst p)"
  shows "sum_list (map (\<lambda>(v, s). real (count_list (ui ! v) i) * s) similar)
         = sum_list (map snd (filter (\<lambda>(v, s). i \<in> set (ui ! v)) similar))"
  using assms
proof (induction similar)
  case Nil
  then show ?case by simp
next
  case (Cons p similar)
  have "distinct (ui ! fst p)" using Cons.prems [of p] by simp
  then have "count_list (ui ! fst p) i = (if i \<in> set (ui ! fst p) then 1 else 0)"
    by (rule count_list_distinct)
  moreover have "sum_list (map (\<lambda>(v, s). real (count_list (ui ! v) i) * s) similar)
         = sum_list (map snd (filter (\<lambda>(v, s). i \<in> set (ui ! v)) similar))"
    using Cons.prems by (intro Cons.IH) simp
  ultimately show ?case by (cases p) simp
qed

lemma scan_user_contributions:
  "map fst (user_contributions ui similar) = concat (map (\<lambda>(v, s). ui ! v) similar)"
  unfolding user_contributions_def
  by (induction similar) (auto simp: comp_def)

lemma get_similar_users_total:
  assumes "0 \<le> user_id" "user_id < int (length ui)"
  shows "\<exists>similar. get_similar_users ui user_id = Inr similar"
  by (simp add: get_similar_users_eq [OF assms])

lemma suggestions_sorted:
  "sorted_wrt (\<lambda>a b. snd b < snd a
                  \<or> (snd a = snd b \<and> first_pos (map fst cs) (fst a) < first_pos (map fst cs) (fst b)))
     (sorted_desc snd (add_similar_interests cs []))"
proof -
  have "sorted_wrt (\<lambda>a b. first_pos (map fst cs) (fst a) < first_pos (map fst cs) (fst b))
          (add_similar_interests cs [])"
    using keys_first_seen [of cs] by (simp add: sorted_wrt_map)
  then show ?thesis by (rule sorted_desc_tie)
qed

text \<open>
  Claim C2: for a user index \<open>0 \<le> user_id < N\<close> (and interest lists without repeated
  entries, as the notebook's are), every pair returned by \<^verbatim>\<open>user_based_suggestions\<close> has
  as weight the sum of the similarities of the similar users who hold the interest, and the
  pairs are in descending order of weight, equal weights in the order in which the interests
  are first met while the similar users are scanned in the order of \<^verbatim>\<open>get_similar_users\<close>.
\<close>

theorem user_based_suggestions_weights:
  assumes "0 \<le> user_id" "user_id < int (length ui)" "\<forall>a\<in>set ui. distinct a"
  shows "\<exists>similar suggestions.
           get_similar_users ui user_id = Inr similar
         \<and> user_based_suggestions ui user_id include_current = Inr suggestions
         \<and> (\<forall>(interest, weight) \<in> set suggestions.
               weight = sum_list (map snd (filter (\<lambda>(v, s). interest \<in> set (ui ! v)) similar)))
         \<and> sorted_wrt (\<lambda>a b. snd b < snd a
               \<or> (snd a = snd b
                  \<and> first_pos (concat (map (\<lambda>(v, s). ui ! v) similar)) (fst a)
                    < first_pos (concat (map (\<lambda>(v, s). ui ! v) similar)) (fst b)))
             suggestions"
proof -
  from get_similar_users_total [OF assms(1,2)]
  obtain similar where similar: "get_similar_users ui user_id = Inr similar" ..
  let ?cs = "user_contributions ui similar"
  let ?all = "sorted_desc snd (add_similar_interests ?cs [])"
  let ?res = "if include_current then ?all
              else filter (\<lambda>(i, w). i \<notin> set (ui ! nat user_id)) ?all"
  have res: "user_based_suggestions ui user_id include_current = Inr ?res"
    using user_based_suggestions_eq [OF assms(1,2) similar] by (simp add: Let_def)
  have sub: "set ?res \<subseteq> set (add_similar_interests ?cs [])"
    by (auto simp: set_sorted_desc)
  have dist: "distinct (ui ! fst p)" if "p \<in> set similar" for p
    using assms(3) get_similar_users_bounds(1) [OF assms(1,2) similar that] by simp
  have weights: "\<forall>(interest, weight) \<in> set ?res.
      weight = sum_list (map snd (filter (\<lambda>(v, s). interest \<in> set (ui ! v)) similar))"
  proof (clarify)
    fix interest weight assume "(interest, weight) \<in> set ?res"
    with sub have "(interest, weight) \<in> set (add_similar_interests ?cs [])" by blast
    then have "weight = sum_list (map snd (filter (\<lambda>c. fst c = interest) ?cs))"
      by (rule weight_add_similar_interests)
    also have "\<dots> = sum_list (map (\<lambda>(v, s). real (count_list (ui ! v) interest) * s) similar)"
      by (rule sum_user_contributions)
    also have "\<dots> = sum_list (map snd (filter (\<lambda>(v, s). interest \<in> set (ui ! v)) similar))"
      by (rule sum_holders) (rule dist)
    finally show "weight = sum_list (map snd (filter (\<lambda>(v, s). interest \<in> set (ui ! v)) similar))" .
  qed
  have "sorted_wrt (\<lambda>a b. snd b < snd a
               \<or> (snd a = snd b
                  \<and> first_pos (map fst ?cs) (fst a) < first_pos (map fst ?cs) (fst b))) ?all"
    by (rule suggestions_sorted)
  then have "sorted_wrt (\<lambda>a b. snd b < snd a
               \<or> (snd a = snd b
                  \<and> first_pos (map fst ?cs) (fst a) < first_pos (map fst ?cs) (fst b))) ?res"
    by (simp add: sorted_wrt_filter)
  then have sorted: "sorted_wrt (\<lambda>a b. snd b < snd a
               \<or> (snd a = snd b
                  \<and> first_pos (concat (map (\<lambda>(v, s). ui ! v) similar)) (fst a)
                    < first_pos (concat (map (\<lambda>(v, s). ui ! v) similar)) (fst b))) ?res"
    unfolding scan_user_contributions .
  from similar res weights sorted show ?thesis by blast
qed

lemma distinct_users_interests: "\<forall>a\<in>set users_interests. distinct a"
  by (simp add: users_interests_def)
lemma contributions_0:
  "add_similar_interests
     (user_contributions users_interests
        [(9, 3 / sqrt 28), (1, 2 / sqrt 35), (8, 1 / sqrt 28), (13, 1 / sqrt 35), (5, 1 / sqrt 42)]) []
   = [(''Hadoop'', 3 / sqrt 28), (''Java'', 3 / sqrt 28 + 1 / sqrt 42),
      (''MapReduce'', 3 / sqrt 28), (''Big Data'', 4 / sqrt 28),
      (''NoSQL'', 2 / sqrt 35), (''MongoDB'', 3 / sqrt 35), (''Cassandra'', 2 / sqrt 35),
      (''HBase'', 3 / sqrt 35), (''Postgres'', 3 / sqrt 35),
      (''neural networks'', 1 / sqrt 28), (''deep learning'', 1 / sqrt 28),
      (''artificial intelligence'', 1 / sqrt 28),
      (''databases'', 1 / sqrt 35), (''MySQL'', 1 / sqrt 35),
      (''Python'', 1 / sqrt 42), (''R'', 1 / sqrt 42), (''C++'', 1 / sqrt 42),
      (''Haskell'', 1 / sqrt 42), (''programming languages'', 1 / sqrt 42)]"
  by (simp add: user_contributions_def users_interests_def)

text \<open>
  The notebook prints \<^verbatim>\<open>user_based_suggestions(0)\<close> in this order, MapReduce first with
  0.567, then MongoDB and Postgres with 0.507.
\<close>

lemma user_based_suggestions_0:
  "user_based_suggestions users_interests 0 False =
     Inr [(''MapReduce'', 3 / sqrt 28), (''MongoDB'', 3 / sqrt 35), (''Postgres'', 3 / sqrt 35),
          (''NoSQL'', 2 / sqrt 35), (''neural networks'', 1 / sqrt 28),
          (''deep learning'', 1 / sqrt 28), (''artificial intelligence'', 1 / sqrt 28),
          (''databases'', 1 / sqrt 35), (''MySQL'', 1 / sqrt 35),
          (''Python'', 1 / sqrt 42), (''R'', 1 / sqrt 42), (''C++'', 1 / sqrt 42),
          (''Haskell'', 1 / sqrt 42), (''programming languages'', 1 / sqrt 42)]"
proof -
  have h: "(0::int) \<le> 0" "0 < int (length users_interests)"
    by (simp_all add: users_interests_def)
  have cur: "users_interests ! nat 0
             = [''Hadoop'', ''Big Data'', ''HBase'', ''Java'', ''Spark'', ''Storm'', ''Cassandra'']"
    by (simp add: users_interests_def)
  show ?thesis
    unfolding user_based_suggestions_eq [OF h similar_users_0] contributions_0 Let_def
      if_False filter_sorted_desc cur
    by (simp add: sorted_desc_def div_sqrt_le_iff)
qed

theorem user_based_suggestions_weights_witness:
  "(0::int) \<le> 0 \<and> 0 < int (length users_interests) \<and> list_all distinct users_interests
   \<and> user_based_suggestions users_interests 0 False =
        Inr [(''MapReduce'', 3 / sqrt 28), (''MongoDB'', 3 / sqrt 35), (''Postgres'', 3 / sqrt 35),
             (''NoSQL'', 2 / sqrt 35), (''neural networks'', 1 / sqrt 28),
             (''deep learning'', 1 / sqrt 28), (''artificial intelligence'', 1 / sqrt 28),
             (''databases'', 1 / sqrt 35), (''MySQL'', 1 / sqrt 35),
             (''Python'', 1 / sqrt 42), (''R'', 1 / sqrt 42), (''C++'', 1 / sqrt 42),
             (''Haskell'', 1 / sqrt 42), (''programming languages'', 1 / sqrt 42)]
   \<and> 3 / sqrt 35 =
        sum_list (map snd (filter (\<lambda>(v, s). ''MongoDB'' \<in> set (users_interests ! v))
          [(9, 3 / sqrt 28), (1, 2 / sqrt 35), (8, 1 / sqrt 28), (13, 1 / sqrt 35),
           (5, 1 / sqrt 42)]))"
proof -
  have h: "(0::int) \<le> 0" "0 < int (length users_interests)"
    by (simp_all add: users_interests_def)
  have d: "\<forall>a\<in>set users_interests. distinct a"
    by (rule distinct_users_interests)
  then have l: "list_all distinct users_interests"
    by (simp add: list_all_iff)
  from user_based_suggestions_weights [OF h d, of False]
  obtain similar suggestions where similar: "get_similar_users users_interests 0 = Inr similar"
    and suggestions: "user_based_suggestions users_interests 0 False = Inr suggestions"
    and weights: "\<forall>(interest, weight) \<in> set suggestions.
           weight = sum_list (map snd
                      (filter (\<lambda>(v, s). interest \<in> set (users_interests ! v)) similar))"
    by blast
  from similar have sim: "similar = [(9, 3 / sqrt 28), (1, 2 / sqrt 35), (8, 1 / sqrt 28),
                                     (13, 1 / sqrt 35), (5, 1 / sqrt 42)]"
    by (simp add: similar_users_0)
  from suggestions have "suggestions =
        [(''MapReduce'', 3 / sqrt 28), (''MongoDB'', 3 / sqrt 35), (''Postgres'', 3 / sqrt 35),
         (''NoSQL'', 2 / sqrt 35), (''neural networks'', 1 / sqrt 28),
         (''deep learning'', 1 / sqrt 28), (''artificial intelligence'', 1 / sqrt 28),
         (''databases'', 1 / sqrt 35), (''MySQL'', 1 / sqrt 35),
         (''Python'', 1 / sqrt 42), (''R'', 1 / sqrt 42), (''C++'', 1 / sqrt 42),
         (''Haskell'', 1 / sqrt 42), (''programming languages'', 1 / sqrt 42)]"
    by (simp add: user_based_suggestions_0)
  then have "(''MongoDB'', 3 / sqrt 35) \<in> set suggestions"
    by simp
  with weights have "3 / sqrt 35 = sum_list (map snd
                      (filter (\<lambda>(v, s). ''MongoDB'' \<in> set (users_interests ! v)) similar))"
    by blast
  with h l show ?thesis
    unfolding sim by (simp only: user_based_suggestions_0 simp_thms)
qed

subsection \<open>A worked example with three users\<close>

lemma three_users_unique: "unique_interests three_users = [''a'', ''b'', ''c'']"
  by (simp add: unique_interests_def three_users_def)

lemma three_users_vectors: "user_interest_matrix three_users = [[1, 1, 0], [1, 0, 1], [0, 1, 1]]"
  by (simp add: user_interest_matrix_def generate_user_interest_vector_def three_users_def
        three_users_unique [unfolded three_users_def])

lemma three_users_columns: "interest_user_matrix three_users = Inr [[1, 1, 0], [1, 0, 1], [0, 1, 1]]"
  by (simp add: interest_user_matrix_def three_users_vectors three_users_unique py_index_def)

lemma three_users_interest_similarities:
  "interest_similarities three_users =
     Inr [[Num 1, Num (1 / 2), Num (1 / 2)],
          [Num (1 / 2), Num 1, Num (1 / 2)],
          [Num (1 / 2), Num (1 / 2), Num 1]]"
  by (simp add: interest_similarities_def three_users_columns similarity_matrix_def
        cosine_similarity_def np_dot_def)

lemma three_users_similar_interests:
  "get_similar_interests three_users 0 = Inr [(''b'', 1 / 2), (''c'', 1 / 2)]"
  "get_similar_interests three_users 1 = Inr [(''a'', 1 / 2), (''c'', 1 / 2)]"
  by (simp_all add: get_similar_interests_def three_users_interest_similarities py_index_def
        three_users_unique similar_pair_def sorted_desc_def)

lemma three_users_item_based:
  "item_based_suggestions three_users 0 True = Inr [(''c'', 1), (''b'', 1 / 2), (''a'', 1 / 2)]"
  "item_based_suggestions three_users 0 False = Inr [(''c'', 1)]"
  by (simp_all add: item_based_suggestions_def three_users_vectors py_index_def
        three_users_similar_interests sorted_desc_def)
     (simp_all add: three_users_def)

lemma three_users_user_similarities:
  "user_similarities three_users =
     Inr [[Num 1, Num (1 / 2), Num (1 / 2)],
          [Num (1 / 2), Num 1, Num (1 / 2)],
          [Num (1 / 2), Num (1 / 2), Num 1]]"
  by (simp add: user_similarities_def three_users_vectors similarity_matrix_def
        cosine_similarity_def np_dot_def)

lemma three_users_similar_users:
  "get_similar_users three_users 0 = Inr [(1, 1 / 2), (2, 1 / 2)]"
  by (simp add: get_similar_users_def three_users_user_similarities py_index_def
        similar_pair_def sorted_desc_def)

lemma three_users_user_based:
  "user_based_suggestions three_users 0 True = Inr [(''c'', 1), (''a'', 1 / 2), (''b'', 1 / 2)]"
  "user_based_suggestions three_users 0 False = Inr [(''c'', 1)]"
  by (simp_all add: user_based_suggestions_def three_users_similar_users)
     (simp_all add: three_users_def py_index_def sorted_desc_def)

subsection \<open>Item-based suggestions\<close>

lemma get_similar_interests_nat:
  "i < length (unique_interests ui) \<Longrightarrow>
   get_similar_interests ui (int i) = Inr (similar_interests ui i)"
  using get_similar_interests_eq [of "int i" ui] by (simp add: similar_interests_def)

lemma held_interests_loop_eq:
  "(\<And>p. p \<in> set ids \<Longrightarrow> fst p < length (unique_interests ui)) \<Longrightarrow>
   held_interests_loop ui ids d = Inr (add_similar_interests (item_contributions ui ids) d)"
proof (induction ui ids d rule: held_interests_loop.induct)
  case (1 ui d)
  then show ?case by (simp add: item_contributions_def)
next
  case (2 ui i b rest d)
  have i: "i < length (unique_interests ui)" using "2.prems" [of "(i, b)"] by simp
  show ?case
  proof (cases "b = 1")
    case True
    have "held_interests_loop ui rest (add_similar_interests (similar_interests ui i) d)
          = Inr (add_similar_interests (item_contributions ui rest)
                   (add_similar_interests (similar_interests ui i) d))"
      using "2.prems" True by (intro "2.IH"(1)) (simp_all add: get_similar_interests_nat i)
    then show ?thesis
      using True
      by (simp add: get_similar_interests_nat i item_contributions_def add_similar_interests_append)
  next
    case False
    have "held_interests_loop ui rest d = Inr (add_similar_interests (item_contributions ui rest) d)"
      using "2.prems" False by (intro "2.IH"(2)) simp_all
    then show ?thesis
      using False by (simp add: item_contributions_def)
  qed
qed

lemma user_interest_vector_valid:
  assumes "0 \<le> user_id" "user_id < int (length ui)"
  shows "py_index (user_interest_matrix ui) user_id
         = Inr (generate_user_interest_vector ui (ui ! nat user_id))"
  using assms by (simp add: py_index_valid length_user_interest_matrix user_interest_matrix_def)

lemma item_based_suggestions_eq:
  assumes "0 \<le> user_id" "user_id < int (length ui)"
  shows "item_based_suggestions ui user_id include_current =
           Inr (let suggestions =
                      sorted_desc snd
                        (add_similar_interests
                           (item_contributions ui
                              (enumerate 0 (generate_user_interest_vector ui (ui ! nat user_id)))) [])
                in if include_current then suggestions
                   else filter (\<lambda>(i, w). i \<notin> set (ui ! nat user_id)) suggestions)"
proof -
  let ?vec = "generate_user_interest_vector ui (ui ! nat user_id)"
  have "held_interests_loop ui (enumerate 0 ?vec) []
        = Inr (add_similar_interests (item_contributions ui (enumerate 0 ?vec)) [])"
    by (rule held_interests_loop_eq)
       (simp add: in_set_enumerate_eq length_generate_user_interest_vector)
  then show ?thesis
    by (simp add: item_based_suggestions_def user_interest_vector_valid [OF assms]
          exclude_current_eq [OF assms] Let_def)
qed

lemma set_similar_interests:
  "set (similar_interests ui i) =
     {(unique_interests ui ! j, s) | j s.
        j < length (unique_interests ui) \<and> j \<noteq> i \<and> 0 < s
        \<and> interest_sim ui (unique_interests ui ! i) (unique_interests ui ! j) = Num s}"
  unfolding similar_interests_def set_sorted_desc set_map similar_pairs_set
  by (auto simp: image_iff)

lemma distinct_similar_interests:
  "distinct (map fst (similar_interests ui i))"
proof -
  let ?row = "map (interest_sim ui (unique_interests ui ! i)) (unique_interests ui)"
  let ?pairs = "List.map_filter (similar_pair (int i)) (enumerate 0 ?row)"
  have d: "distinct (map fst ?pairs)"
    by (rule sorted_wrt_fst_distinct) (rule similar_pairs_increasing)
  have b: "set (map fst ?pairs) \<subseteq> {..<length (unique_interests ui)}"
    by (auto simp: similar_pairs_set)
  have "inj_on (nth (unique_interests ui)) {..<length (unique_interests ui)}"
    using distinct_unique_interests [of ui] by (auto simp: inj_on_def nth_eq_iff_index_eq)
  then have "inj_on (nth (unique_interests ui)) (set (map fst ?pairs))"
    using b by (rule inj_on_subset)
  with d have "distinct (map (nth (unique_interests ui)) (map fst ?pairs))"
    unfolding distinct_map [of "nth (unique_interests ui)" "map fst ?pairs"] by blast
  then have dd: "distinct (map (nth (unique_interests ui)) (map fst ?pairs))" .
  have eq: "map fst (map (\<lambda>(j, s). (unique_interests ui ! j, s)) ?pairs)
            = map (nth (unique_interests ui)) (map fst ?pairs)"
    by (simp add: case_prod_beta comp_def)
  have "distinct (map fst (map (\<lambda>(j, s). (unique_interests ui ! j, s)) ?pairs))"
    unfolding eq by (fact dd)
  then show ?thesis
    unfolding similar_interests_def distinct_map_sorted_desc .
qed

lemma sum_filter_key_distinct:
  "distinct (map fst ps) \<Longrightarrow>
   sum_list (map snd (filter (\<lambda>p. fst p = x) ps)) = (case map_of ps x of None \<Rightarrow> 0 | Some s \<Rightarrow> s)"
proof (induction ps)
  case Nil
  then show ?case by simp
next
  case (Cons p ps)
  then show ?case
    by (cases p) (auto simp: filter_key_absent split: option.splits)
qed

lemma contribution_similar_interests:
  assumes "i < length (unique_interests ui)" "j < length (unique_interests ui)"
  shows "sum_list (map snd (filter (\<lambda>p. fst p = unique_interests ui ! j) (similar_interests ui i)))
         = (if i = j then 0
            else positive_similarity
                   (Inr (interest_sim ui (unique_interests ui ! i) (unique_interests ui ! j))))"
proof -
  let ?u = "unique_interests ui"
  let ?SI = "similar_interests ui i"
  have mem: "(?u ! j, s) \<in> set ?SI \<longleftrightarrow> j \<noteq> i \<and> 0 < s \<and> interest_sim ui (?u ! i) (?u ! j) = Num s"
    for s
    using assms distinct_unique_interests [of ui]
    by (auto simp: set_similar_interests nth_eq_iff_index_eq)
  have m: "map_of ?SI (?u ! j) = Some s \<longleftrightarrow> (?u ! j, s) \<in> set ?SI" for s
    using distinct_similar_interests [of ui i] by simp
  show ?thesis
  proof (cases "map_of ?SI (?u ! j)")
    case None
    then have no: "\<And>s. \<not> (j \<noteq> i \<and> 0 < s \<and> interest_sim ui (?u ! i) (?u ! j) = Num s)"
      using m mem by (metis option.distinct(1))
    have "positive_similarity (Inr (interest_sim ui (?u ! i) (?u ! j))) = 0" if "i \<noteq> j"
      using no that
      by (cases "interest_sim ui (?u ! i) (?u ! j)") (auto simp: positive_similarity_def)
    with None show ?thesis
      by (simp add: sum_filter_key_distinct [OF distinct_similar_interests])
  next
    case (Some s)
    then have "j \<noteq> i" "0 < s" "interest_sim ui (?u ! i) (?u ! j) = Num s"
      using m mem by blast+
    with Some show ?thesis
      by (simp add: sum_filter_key_distinct [OF distinct_similar_interests] positive_similarity_def)
  qed
qed

lemma cosine_similarity_columns:
  assumes "interest_user_matrix ui = Inr cols"
    and "i < length (unique_interests ui)" "j < length (unique_interests ui)"
  shows "cosine_similarity (map real_of_int (cols ! i)) (map real_of_int (cols ! j))
         = Inr (interest_sim ui (unique_interests ui ! i) (unique_interests ui ! j))"
proof -
  let ?col = "\<lambda>x. map (\<lambda>a. if x \<in> set a then 1 else 0 :: int) ui"
  have cols: "cols = map ?col (unique_interests ui)"
    using assms(1) by (simp add: interest_user_matrix_eq)
  have i: "map real_of_int (cols ! i)
           = map (\<lambda>a. real_of_int (if unique_interests ui ! i \<in> set a then 1 else 0)) ui"
    using assms(2) by (simp add: cols comp_def)
  have j: "map real_of_int (cols ! j)
           = map (\<lambda>a. real_of_int (if unique_interests ui ! j \<in> set a then 1 else 0)) ui"
    using assms(3) by (simp add: cols comp_def)
  show ?thesis
    unfolding i j
    by (subst cosine_similarity_eq)
       (simp_all only: length_map cosine_value_columns [unfolded cosine_value_def])
qed

lemma enumerate_upt: "enumerate 0 xs = map (\<lambda>i. (i, xs ! i)) [0..<length xs]"
  by (rule nth_equalityI) (simp_all add: nth_enumerate_eq)

lemma sum_item_contributions_upt:
  "sum_list (map snd (filter P (item_contributions ui (map (\<lambda>i. (i, vec ! i)) ids))))
   = sum_list (map (\<lambda>i. sum_list (map snd (filter P (similar_interests ui i))))
               (filter (\<lambda>i. vec ! i = 1) ids))"
  by (induction ids) (simp_all add: item_contributions_def)

lemma sum_item_contributions:
  "sum_list (map snd (filter P (item_contributions ui (enumerate 0 vec))))
   = sum_list (map (\<lambda>i. sum_list (map snd (filter P (similar_interests ui i))))
               (filter (\<lambda>i. vec ! i = 1) [0..<length vec]))"
  unfolding enumerate_upt by (rule sum_item_contributions_upt)

lemma key_item_contributions:
  assumes "c \<in> set (item_contributions ui ids)"
  shows "\<exists>j < length (unique_interests ui). fst c = unique_interests ui ! j"
  using assms unfolding item_contributions_def
  by (auto simp: set_similar_interests split: if_splits)

lemma sum_held_other:
  "sum_list (map (\<lambda>i. if i = j then 0 else g i) (filter P xs))
   = sum_list (map g (filter (\<lambda>i. P i \<and> i \<noteq> j) xs))"
  by (induction xs) simp_all

lemma scan_item_contributions_upt:
  assumes "\<And>i. i \<in> set ids \<Longrightarrow> i < length (unique_interests ui)"
  shows "map fst (item_contributions ui (map (\<lambda>i. (i, vec ! i)) ids))
   = concat (map (\<lambda>i. case get_similar_interests ui (int i) of
                         Inl e \<Rightarrow> [] | Inr similar \<Rightarrow> map fst similar)
               (filter (\<lambda>i. vec ! i = 1) ids))"
  using assms
  by (induction ids) (simp_all add: item_contributions_def get_similar_interests_nat)

lemma scan_item_contributions:
  assumes "length vec = length (unique_interests ui)"
  shows "map fst (item_contributions ui (enumerate 0 vec))
   = concat (map (\<lambda>i. case get_similar_interests ui (int i) of
                         Inl e \<Rightarrow> [] | Inr similar \<Rightarrow> map fst similar)
               (filter (\<lambda>i. vec ! i = 1) [0..<length vec]))"
  unfolding enumerate_upt
  by (rule scan_item_contributions_upt) (simp add: assms)

lemma sum_list_pos_real:
  "xs \<noteq> [] \<Longrightarrow> (\<And>x. x \<in> set xs \<Longrightarrow> 0 < x) \<Longrightarrow> 0 < sum_list (xs :: real list)"
proof (induction xs)
  case Nil
  then show ?case by simp
next
  case (Cons x xs)
  have "0 < x" using Cons.prems(2) [of x] by simp
  moreover have "0 \<le> sum_list xs"
    using Cons.prems(2) by (intro sum_list_nonneg) force
  ultimately show ?case by simp
qed

lemma item_contributions_pos:
  assumes "c \<in> set (item_contributions ui ids)"
  shows "0 < snd c"
  using assms unfolding item_contributions_def
  by (auto simp: set_similar_interests split: if_splits)

lemma weight_item_contributions_pos:
  assumes "(k, w) \<in> set (add_similar_interests (item_contributions ui ids) [])"
  shows "0 < w"
proof -
  let ?cs = "item_contributions ui ids"
  have "k \<in> fst ` set (add_similar_interests ?cs [])"
    using assms by force
  then have "k \<in> fst ` set ?cs"
    by (simp add: key_set_add_similar_interests)
  then have "filter (\<lambda>c. fst c = k) ?cs \<noteq> []"
    by (auto simp: filter_empty_conv)
  moreover have "0 < x" if "x \<in> set (map snd (filter (\<lambda>c. fst c = k) ?cs))" for x
    using that item_contributions_pos [of _ ui ids] by auto
  ultimately have "0 < sum_list (map snd (filter (\<lambda>c. fst c = k) ?cs))"
    by (intro sum_list_pos_real) simp_all
  then show ?thesis
    using weight_add_similar_interests [OF assms] by simp
qed

text \<open>
  Claim C3: for a user index \<open>0 \<le> user_id < N\<close>, \<^verbatim>\<open>item_based_suggestions\<close> returns
  exactly one pair for every interest \<open>j\<close> that has a positive similarity to some interest
  \<open>i \<noteq> j\<close> the user holds (and, without \<^verbatim>\<open>include_current_interests\<close>, is not one of
  the user's). Its weight is the sum, over every interest \<open>i \<noteq> j\<close> the user holds, of the
  similarity of \<open>i\<close> and \<open>j\<close> when it is positive, so an interest similar to two held
  interests gets both contributions; every returned weight is positive. The pairs are in
  descending order of weight, equal weights in the order in which the interests are first
  met, and without \<^verbatim>\<open>include_current_interests\<close> no returned interest is one of the user's.
\<close>

theorem item_based_suggestions_weights:
  assumes "0 \<le> user_id" "user_id < int (length ui)"
  shows "\<exists>vec cols suggestions.
           py_index (user_interest_matrix ui) user_id = Inr vec
         \<and> interest_user_matrix ui = Inr cols
         \<and> item_based_suggestions ui user_id include_current = Inr suggestions
         \<and> (\<forall>(interest, weight) \<in> set suggestions.
               0 < weight
             \<and> (\<exists>j < length (unique_interests ui).
                  interest = unique_interests ui ! j
                \<and> weight =
                    sum_list
                      (map (\<lambda>i. positive_similarity
                                  (cosine_similarity (map real_of_int (cols ! i))
                                                     (map real_of_int (cols ! j))))
                         (filter (\<lambda>i. vec ! i = 1 \<and> i \<noteq> j) [0..<length vec]))))
         \<and> (\<forall>j < length (unique_interests ui).
               (\<exists>i < length vec. vec ! i = 1 \<and> i \<noteq> j
                   \<and> 0 < positive_similarity
                           (cosine_similarity (map real_of_int (cols ! i))
                                              (map real_of_int (cols ! j))))
               \<and> (include_current \<or> unique_interests ui ! j \<notin> set (ui ! nat user_id))
               \<longrightarrow>
                 (unique_interests ui ! j,
                  sum_list
                    (map (\<lambda>i. positive_similarity
                                (cosine_similarity (map real_of_int (cols ! i))
                                                   (map real_of_int (cols ! j))))
                       (filter (\<lambda>i. vec ! i = 1 \<and> i \<noteq> j) [0..<length vec])))
                 \<in> set suggestions)
         \<and> distinct (map fst suggestions)
         \<and> sorted_wrt (\<lambda>a b. snd b < snd a
               \<or> (snd a = snd b
                  \<and> first_pos
                       (concat (map (\<lambda>i. case get_similar_interests ui (int i) of
                                            Inl e \<Rightarrow> [] | Inr similar \<Rightarrow> map fst similar)
                                  (filter (\<lambda>i. vec ! i = 1) [0..<length vec]))) (fst a)
                    < first_pos
                       (concat (map (\<lambda>i. case get_similar_interests ui (int i) of
                                            Inl e \<Rightarrow> [] | Inr similar \<Rightarrow> map fst similar)
                                  (filter (\<lambda>i. vec ! i = 1) [0..<length vec]))) (fst b)))
             suggestions
         \<and> (\<not> include_current \<longrightarrow>
               (\<forall>(interest, weight) \<in> set suggestions. interest \<notin> set (ui ! nat user_id)))"
proof -
  let ?u = "unique_interests ui"
  let ?vec = "generate_user_interest_vector ui (ui ! nat user_id)"
  let ?cols = "map (\<lambda>x. map (\<lambda>a. if x \<in> set a then 1 else 0 :: int) ui) ?u"
  let ?cs = "item_contributions ui (enumerate 0 ?vec)"
  let ?all = "sorted_desc snd (add_similar_interests ?cs [])"
  let ?res = "if include_current then ?all
              else filter (\<lambda>(i, w). i \<notin> set (ui ! nat user_id)) ?all"
  let ?scan = "concat (map (\<lambda>i. case get_similar_interests ui (int i) of
                                   Inl e \<Rightarrow> [] | Inr similar \<Rightarrow> map fst similar)
                         (filter (\<lambda>i. ?vec ! i = 1) [0..<length ?vec]))"
  have len: "length ?vec = length ?u"
    by (rule length_generate_user_interest_vector)
  have vec: "py_index (user_interest_matrix ui) user_id = Inr ?vec"
    by (rule user_interest_vector_valid [OF assms])
  have cols: "interest_user_matrix ui = Inr ?cols"
    by (rule interest_user_matrix_eq)
  have res: "item_based_suggestions ui user_id include_current = Inr ?res"
    using item_based_suggestions_eq [OF assms] by (simp add: Let_def)
  have sub: "set ?res \<subseteq> set (add_similar_interests ?cs [])"
    by (auto simp: set_sorted_desc)
  have weights: "\<forall>(interest, weight) \<in> set ?res.
      0 < weight
      \<and> (\<exists>j < length ?u. interest = ?u ! j
        \<and> weight = sum_list
            (map (\<lambda>i. positive_similarity
                        (cosine_similarity (map real_of_int (?cols ! i))
                                           (map real_of_int (?cols ! j))))
               (filter (\<lambda>i. ?vec ! i = 1 \<and> i \<noteq> j) [0..<length ?vec])))"
  proof (clarify)
    fix interest weight assume "(interest, weight) \<in> set ?res"
    with sub have mem: "(interest, weight) \<in> set (add_similar_interests ?cs [])" by blast
    have pos: "0 < weight"
      using mem by (rule weight_item_contributions_pos)
    from mem have "interest \<in> fst ` set ?cs"
      using key_set_add_similar_interests [of ?cs "[]"] by force
    then obtain j where j: "j < length ?u" "interest = ?u ! j"
      using key_item_contributions [of _ ui "enumerate 0 ?vec"] by auto
    have "weight = sum_list (map snd (filter (\<lambda>c. fst c = interest) ?cs))"
      using mem by (rule weight_add_similar_interests)
    also have "\<dots> = sum_list
        (map (\<lambda>i. sum_list (map snd (filter (\<lambda>c. fst c = ?u ! j) (similar_interests ui i))))
           (filter (\<lambda>i. ?vec ! i = 1) [0..<length ?vec]))"
      unfolding j(2) by (rule sum_item_contributions)
    also have "\<dots> = sum_list
        (map (\<lambda>i. if i = j then 0
                  else positive_similarity
                         (cosine_similarity (map real_of_int (?cols ! i))
                                            (map real_of_int (?cols ! j))))
           (filter (\<lambda>i. ?vec ! i = 1) [0..<length ?vec]))"
    proof (rule arg_cong [where f = sum_list], rule map_cong [OF refl])
      fix i assume "i \<in> set (filter (\<lambda>i. ?vec ! i = 1) [0..<length ?vec])"
      then have i: "i < length ?u" using len by simp
      show "sum_list (map snd (filter (\<lambda>c. fst c = ?u ! j) (similar_interests ui i)))
            = (if i = j then 0
               else positive_similarity
                      (cosine_similarity (map real_of_int (?cols ! i))
                                         (map real_of_int (?cols ! j))))"
        unfolding contribution_similar_interests [OF i j(1)]
          cosine_similarity_columns [OF cols i j(1)] ..
    qed
    also have "\<dots> = sum_list
        (map (\<lambda>i. positive_similarity
                    (cosine_similarity (map real_of_int (?cols ! i))
                                       (map real_of_int (?cols ! j))))
           (filter (\<lambda>i. ?vec ! i = 1 \<and> i \<noteq> j) [0..<length ?vec]))"
      by (rule sum_held_other)
    finally show "0 < weight \<and> (\<exists>j < length ?u. interest = ?u ! j
        \<and> weight = sum_list
            (map (\<lambda>i. positive_similarity
                        (cosine_similarity (map real_of_int (?cols ! i))
                                           (map real_of_int (?cols ! j))))
               (filter (\<lambda>i. ?vec ! i = 1 \<and> i \<noteq> j) [0..<length ?vec])))"
      using j pos by blast
  qed
  have complete: "\<forall>j < length ?u.
      (\<exists>i < length ?vec. ?vec ! i = 1 \<and> i \<noteq> j
          \<and> 0 < positive_similarity
                  (cosine_similarity (map real_of_int (?cols ! i))
                                     (map real_of_int (?cols ! j))))
      \<and> (include_current \<or> ?u ! j \<notin> set (ui ! nat user_id))
      \<longrightarrow>
        (?u ! j,
         sum_list
           (map (\<lambda>i. positive_similarity
                       (cosine_similarity (map real_of_int (?cols ! i))
                                          (map real_of_int (?cols ! j))))
              (filter (\<lambda>i. ?vec ! i = 1 \<and> i \<noteq> j) [0..<length ?vec])))
        \<in> set ?res"
  proof (intro allI impI, elim conjE exE)
    fix j i
    assume j: "j < length ?u" and i: "i < length ?vec" and held: "?vec ! i = 1" and ij: "i \<noteq> j"
      and sim: "0 < positive_similarity
                  (cosine_similarity (map real_of_int (?cols ! i))
                                     (map real_of_int (?cols ! j)))"
      and keep: "include_current \<or> ?u ! j \<notin> set (ui ! nat user_id)"
    from i len have i': "i < length ?u" by simp
    from sim obtain s where s: "0 < s" "interest_sim ui (?u ! i) (?u ! j) = Num s"
      unfolding cosine_similarity_columns [OF cols i' j]
      by (cases "interest_sim ui (?u ! i) (?u ! j)")
         (auto simp: positive_similarity_def split: if_splits)
    have "(?u ! j, s) \<in> set (similar_interests ui i)"
      unfolding set_similar_interests using j ij s by auto
    moreover have "(i, 1) \<in> set (enumerate 0 ?vec)"
      using i held by (simp add: in_set_enumerate_eq)
    ultimately have "(?u ! j, s) \<in> set ?cs"
      unfolding item_contributions_def by force
    then have "?u ! j \<in> fst ` set ?cs" by force
    then have "?u ! j \<in> fst ` set (add_similar_interests ?cs [])"
      by (simp add: key_set_add_similar_interests)
    then obtain w where "(?u ! j, w) \<in> set ?all"
      by (auto simp: set_sorted_desc)
    with keep have mem: "(?u ! j, w) \<in> set ?res"
      by auto
    with weights obtain j' where j': "j' < length ?u" "?u ! j = ?u ! j'"
      and w: "w = sum_list
            (map (\<lambda>i. positive_similarity
                        (cosine_similarity (map real_of_int (?cols ! i))
                                           (map real_of_int (?cols ! j'))))
               (filter (\<lambda>i. ?vec ! i = 1 \<and> i \<noteq> j') [0..<length ?vec]))"
      by blast
    from j j' have "j' = j"
      using distinct_unique_interests [of ui] by (simp add: nth_eq_iff_index_eq)
    with mem w show "(?u ! j,
         sum_list
           (map (\<lambda>i. positive_similarity
                       (cosine_similarity (map real_of_int (?cols ! i))
                                          (map real_of_int (?cols ! j))))
              (filter (\<lambda>i. ?vec ! i = 1 \<and> i \<noteq> j) [0..<length ?vec])))
        \<in> set ?res"
      by simp
  qed
  have "distinct (map fst ?all)"
    unfolding distinct_map_sorted_desc
    by (rule distinct_keys_add_similar_interests) simp
  then have dist: "distinct (map fst ?res)"
    by (simp add: distinct_map_filter)
  have "sorted_wrt (\<lambda>a b. snd b < snd a
               \<or> (snd a = snd b
                  \<and> first_pos (map fst ?cs) (fst a) < first_pos (map fst ?cs) (fst b))) ?all"
    by (rule suggestions_sorted)
  then have "sorted_wrt (\<lambda>a b. snd b < snd a
               \<or> (snd a = snd b
                  \<and> first_pos (map fst ?cs) (fst a) < first_pos (map fst ?cs) (fst b))) ?res"
    by (simp add: sorted_wrt_filter)
  then have sorted: "sorted_wrt (\<lambda>a b. snd b < snd a
               \<or> (snd a = snd b \<and> first_pos ?scan (fst a) < first_pos ?scan (fst b))) ?res"
    unfolding scan_item_contributions [OF len] .
  have filtered: "\<not> include_current \<longrightarrow>
               (\<forall>(interest, weight) \<in> set ?res. interest \<notin> set (ui ! nat user_id))"
    by auto
  from vec cols res weights complete dist sorted filtered show ?thesis by blast
qed

theorem item_based_suggestions_weights_witness:
  "(0::int) \<le> 0 \<and> 0 < int (length three_users)
   \<and> get_similar_interests three_users 0 = Inr [(''b'', 1 / 2), (''c'', 1 / 2)]
   \<and> get_similar_interests three_users 1 = Inr [(''a'', 1 / 2), (''c'', 1 / 2)]
   \<and> item_based_suggestions three_users 0 True = Inr [(''c'', 1), (''b'', 1 / 2), (''a'', 1 / 2)]
   \<and> item_based_suggestions three_users 0 False = Inr [(''c'', 1)]
   \<and> (1::real) =
        sum_list
          (map (\<lambda>i. positive_similarity
                      (cosine_similarity
                         (map real_of_int ([[1, 1, 0], [1, 0, 1], [0, 1, 1]] ! i))
                         (map real_of_int ([[1, 1, 0], [1, 0, 1], [0, 1, 1]] ! 2))))
             (filter (\<lambda>i. [1, 1, 0] ! i = (1::int) \<and> i \<noteq> 2) [0..<length [1, 1, 0 :: int]]))"
proof -
  have h: "(0::int) \<le> 0" "0 < int (length three_users)"
    by (simp_all add: three_users_def)
  from item_based_suggestions_weights [OF h, of False]
  obtain vec cols suggestions
    where vec: "py_index (user_interest_matrix three_users) 0 = Inr vec"
      and cols: "interest_user_matrix three_users = Inr cols"
      and suggestions: "item_based_suggestions three_users 0 False = Inr suggestions"
      and weights: "\<forall>(interest, weight) \<in> set suggestions.
               0 < weight
             \<and> (\<exists>j < length (unique_interests three_users).
                  interest = unique_interests three_users ! j
                \<and> weight =
                    sum_list
                      (map (\<lambda>i. positive_similarity
                                  (cosine_similarity (map real_of_int (cols ! i))
                                                     (map real_of_int (cols ! j))))
                         (filter (\<lambda>i. vec ! i = 1 \<and> i \<noteq> j) [0..<length vec])))"
    by blast
  from vec have v: "vec = [1, 1, 0]"
    by (simp add: three_users_vectors py_index_def)
  from cols have c: "cols = [[1, 1, 0], [1, 0, 1], [0, 1, 1]]"
    by (simp add: three_users_columns)
  from suggestions have "suggestions = [(''c'', 1)]"
    by (simp add: three_users_item_based)
  then have "(''c'', 1) \<in> set suggestions"
    by simp
  with weights obtain j where j: "j < length (unique_interests three_users)"
      "''c'' = unique_interests three_users ! j"
    and w: "(1::real) =
              sum_list
                (map (\<lambda>i. positive_similarity
                            (cosine_similarity (map real_of_int (cols ! i))
                                               (map real_of_int (cols ! j))))
                   (filter (\<lambda>i. vec ! i = 1 \<and> i \<noteq> j) [0..<length vec]))"
    by blast
  from j have "j = 2"
    unfolding three_users_unique by (auto simp: less_Suc_eq numeral_2_eq_2)
  with w have "(1::real) =
        sum_list
          (map (\<lambda>i. positive_similarity
                      (cosine_similarity
                         (map real_of_int ([[1, 1, 0], [1, 0, 1], [0, 1, 1]] ! i))
                         (map real_of_int ([[1, 1, 0], [1, 0, 1], [0, 1, 1]] ! 2))))
             (filter (\<lambda>i. [1, 1, 0] ! i = (1::int) \<and> i \<noteq> 2) [0..<length [1, 1, 0 :: int]]))"
    unfolding v c by simp
  with h show ?thesis
    by (simp only: three_users_similar_interests three_users_item_based simp_thms)
qed

subsection \<open>Indices out of range and the default filter\<close>

lemma py_index_out_of_range:
  "i < - int (length xs) \<or> int (length xs) \<le> i \<Longrightarrow> py_index xs i = Inl IndexError"
  by (auto simp: py_index_def)

lemma py_index_from_end:
  "- int (length xs) \<le> i \<Longrightarrow> i < 0 \<Longrightarrow> py_index xs i = Inr (xs ! nat (int (length xs) + i))"
  by (simp add: py_index_def)

lemma get_similar_users_out_of_range:
  assumes "user_id < - int (length ui) \<or> int (length ui) \<le> user_id"
  shows "get_similar_users ui user_id = Inl IndexError"
  using assms by (simp add: get_similar_users_def user_similarities_closed py_index_out_of_range)

lemma get_similar_interests_out_of_range:
  assumes "interest_id < - int (length (unique_interests ui))
           \<or> int (length (unique_interests ui)) \<le> interest_id"
  shows "get_similar_interests ui interest_id = Inl IndexError"
  using assms
  by (simp add: get_similar_interests_def interest_similarities_closed py_index_out_of_range)

lemma get_similar_users_from_end:
  assumes "- int (length ui) \<le> user_id" "user_id < 0"
  shows "get_similar_users ui user_id =
           Inr (sorted_desc snd (List.map_filter (similar_pair user_id)
                  (enumerate 0 (map (user_sim (ui ! nat (int (length ui) + user_id))) ui))))"
proof -
  have "nat (int (length ui) + user_id) < length ui"
    using assms by linarith
  then show ?thesis
    using assms
    by (simp add: get_similar_users_def user_similarities_closed py_index_from_end)
qed

text \<open>
  Claim C6, as the code has it: an index \<open>i \<ge> N\<close> or \<open>i < -N\<close> (\<open>M\<close> for an interest index)
  makes each of the four functions raise \<^verbatim>\<open>IndexError\<close>.
\<close>

theorem out_of_range_index_raises:
  "(user_id < - int (length ui) \<or> int (length ui) \<le> user_id \<longrightarrow>
      get_similar_users ui user_id = Inl IndexError
    \<and> user_based_suggestions ui user_id include_current = Inl IndexError
    \<and> item_based_suggestions ui user_id include_current = Inl IndexError)
   \<and> (interest_id < - int (length (unique_interests ui))
        \<or> int (length (unique_interests ui)) \<le> interest_id \<longrightarrow>
      get_similar_interests ui interest_id = Inl IndexError)"
proof (intro conjI impI)
  assume u: "user_id < - int (length ui) \<or> int (length ui) \<le> user_id"
  then show "get_similar_users ui user_id = Inl IndexError"
    by (rule get_similar_users_out_of_range)
  then show "user_based_suggestions ui user_id include_current = Inl IndexError"
    by (simp add: user_based_suggestions_def)
  show "item_based_suggestions ui user_id include_current = Inl IndexError"
    using u
    by (simp add: item_based_suggestions_def py_index_out_of_range length_user_interest_matrix)
next
  assume "interest_id < - int (length (unique_interests ui))
          \<or> int (length (unique_interests ui)) \<le> interest_id"
  then show "get_similar_interests ui interest_id = Inl IndexError"
    by (rule get_similar_interests_out_of_range)
qed

theorem out_of_range_index_raises_witness:
  "(int (length users_interests) \<le> 15
    \<and> get_similar_users users_interests 15 = Inl IndexError
    \<and> user_based_suggestions users_interests 15 False = Inl IndexError
    \<and> item_based_suggestions users_interests 15 False = Inl IndexError)
   \<and> (- 37 < - int (length (unique_interests users_interests))
    \<and> get_similar_interests users_interests (- 37) = Inl IndexError)"
proof -
  have n: "int (length users_interests) \<le> 15"
    by (simp add: users_interests_def)
  have "length (unique_interests users_interests) = 36"
    by code_simp
  then have m: "- 37 < - int (length (unique_interests users_interests))"
    by simp
  from out_of_range_index_raises [of 15 users_interests False "- 37"] n m show ?thesis by simp
qed

lemma last_user_self_similarity:
  "user_sim (users_interests ! 14) (users_interests ! 14) = Num 1"
  by (simp add: users_interests_def user_sim_def)

text \<open>
  The index \<open>-1\<close> is outside \<open>[0, N)\<close> and raises nothing: it is Python's index of the last
  user, and since \<open>-1 \<noteq> 14\<close> the last user is listed as similar to themselves.
\<close>

theorem negative_index_accepted:
  "get_similar_users users_interests (- 1) \<noteq> Inl IndexError
   \<and> (14, 1) \<in> set (projr (get_similar_users users_interests (- 1)))"
proof -
  have len: "length users_interests = 15"
    by (simp add: users_interests_def)
  have r: "get_similar_users users_interests (- 1) =
           Inr (sorted_desc snd (List.map_filter (similar_pair (- 1))
                  (enumerate 0 (map (user_sim (users_interests ! 14)) users_interests))))"
    using get_similar_users_from_end [of users_interests "- 1"] by (simp add: len)
  have "(14, 1) \<in> set (List.map_filter (similar_pair (- 1))
                  (enumerate 0 (map (user_sim (users_interests ! 14)) users_interests)))"
    unfolding similar_pairs_set using last_user_self_similarity by (simp add: len)
  then show ?thesis
    unfolding r by (simp add: set_sorted_desc)
qed

text \<open>
  Claim C4: for a user index \<open>0 \<le> user_id < N\<close>, neither \<^verbatim>\<open>user_based_suggestions\<close> nor
  \<^verbatim>\<open>item_based_suggestions\<close>, called without \<^verbatim>\<open>include_current_interests\<close>, returns an
  interest of \<^verbatim>\<open>users_interests[user_id]\<close>.
\<close>

theorem default_filter_excludes_current:
  assumes "0 \<le> user_id" "user_id < int (length ui)"
  shows "\<exists>user_based item_based.
           user_based_suggestions ui user_id False = Inr user_based
         \<and> item_based_suggestions ui user_id False = Inr item_based
         \<and> set (map fst user_based) \<inter> set (ui ! nat user_id) = {}
         \<and> set (map fst item_based) \<inter> set (ui ! nat user_id) = {}"
proof -
  from get_similar_users_total [OF assms]
  obtain similar where similar: "get_similar_users ui user_id = Inr similar" ..
  show ?thesis
    unfolding user_based_suggestions_eq [OF assms similar] item_based_suggestions_eq [OF assms]
    by (auto simp: Let_def)
qed

theorem default_filter_excludes_current_witness:
  "(0::int) \<le> 0 \<and> 0 < int (length three_users)
   \<and> user_based_suggestions three_users 0 False = Inr [(''c'', 1)]
   \<and> item_based_suggestions three_users 0 False = Inr [(''c'', 1)]
   \<and> set (map fst [(''c'', 1 :: real)]) \<inter> set (three_users ! nat 0) = {}"
proof -
  have h: "(0::int) \<le> 0" "0 < int (length three_users)"
    by (simp_all add: three_users_def)
  from default_filter_excludes_current [OF h]
  obtain user_based item_based
    where u: "user_based_suggestions three_users 0 False = Inr user_based"
      and i: "item_based_suggestions three_users 0 False = Inr item_based"
      and f: "set (map fst user_based) \<inter> set (three_users ! nat 0) = {}"
    by blast
  from u have "user_based = [(''c'', 1)]"
    by (simp add: three_users_user_based)
  with f h show ?thesis
    by (simp only: three_users_user_based three_users_item_based simp_thms)
qed

subsection \<open>Self-similarity and the notebook's users 0 and 9\<close>

lemma user_sim_self: "a \<noteq> [] \<Longrightarrow> user_sim a a = Num 1"
proof -
  assume "a \<noteq> []"
  moreover from this have "0 < card (set a)" by (simp add: card_gt_0_iff)
  ultimately show ?thesis by (simp add: user_sim_def)
qed

lemma interest_sim_self: "x \<in> set (concat ui) \<Longrightarrow> interest_sim ui x x = Num 1"
  using co_holders_pos [of x ui] by (simp add: interest_sim_def)

lemma user_similarities_diagonal:
  assumes "[] \<notin> set ui"
  shows "\<exists>us. user_similarities ui = Inr us \<and> length us = length ui
              \<and> (\<forall>u < length ui. length (us ! u) = length ui \<and> us ! u ! u = Num 1)"
proof -
  have "ui ! u \<noteq> []" if "u < length ui" for u
    using assms that by (metis nth_mem)
  then show ?thesis
    by (simp add: user_similarities_closed user_sim_self)
qed

lemma interest_similarities_diagonal:
  "\<exists>is. interest_similarities ui = Inr is \<and> length is = length (unique_interests ui)
         \<and> (\<forall>i < length (unique_interests ui).
               length (is ! i) = length (unique_interests ui) \<and> is ! i ! i = Num 1)"
proof -
  have "unique_interests ui ! i \<in> set (concat ui)" if "i < length (unique_interests ui)" for i
    using that set_unique_interests [of ui] nth_mem by blast
  then show ?thesis
    by (simp add: interest_similarities_closed interest_sim_self)
qed

text \<open>
  The two similarity matrices of the recommender: with fewer than \<open>2 ^ 31\<close> interests,
  and fewer than \<open>2 ^ 31\<close> users, \<^verbatim>\<open>int64\<close> arithmetic gives the entries of the exact
  definitions.
\<close>

lemma user_similarities_int64:
  assumes "length (unique_interests ui) < 2 ^ 31"
  shows "similarity_matrix_int64 (user_interest_matrix ui)
         = map_sum id (map (map float64_of)) (user_similarities ui)"
  unfolding user_similarities_def
proof (rule similarity_matrix_int64_exact)
  fix r assume "r \<in> set (user_interest_matrix ui)"
  then obtain a where "r = generate_user_interest_vector ui a"
    by (auto simp: user_interest_matrix_def)
  then show "set r \<subseteq> {0, 1} \<and> length r < 2 ^ 31"
    using assms by (auto simp: generate_user_interest_vector_def)
qed

lemma interest_similarities_int64:
  assumes "length ui < 2 ^ 31"
  shows "\<exists>cols. interest_user_matrix ui = Inr cols
           \<and> similarity_matrix_int64 cols
               = map_sum id (map (map float64_of)) (interest_similarities ui)"
proof -
  let ?cols = "map (\<lambda>x. map (\<lambda>a. if x \<in> set a then 1 else 0 :: int) ui) (unique_interests ui)"
  have cols: "interest_user_matrix ui = Inr ?cols"
    by (rule interest_user_matrix_eq)
  have "similarity_matrix_int64 ?cols = map_sum id (map (map float64_of)) (similarity_matrix ?cols)"
  proof (rule similarity_matrix_int64_exact)
    fix r assume "r \<in> set ?cols"
    then show "set r \<subseteq> {0, 1} \<and> length r < 2 ^ 31"
      using assms by auto
  qed
  with cols show ?thesis
    by (simp add: interest_similarities_def)
qed

text \<open>
  Claim C8, as the code has it: \<^verbatim>\<open>cosine_similarity(v, v)\<close> is \<open>1\<close> for every \<^verbatim>\<open>int64\<close>
  vector that is not all-zero and whose squared norm, squared, is below \<open>2 ^ 63\<close>; for a
  table in which every user has an interest (the notebook's is one), every diagonal entry of
  the user-similarity matrix is \<open>1\<close>, and every diagonal entry of the interest-similarity
  matrix is \<open>1\<close>.
\<close>

theorem self_similarity_is_one:
  "(\<not> set v \<subseteq> {0} \<and> dot_int64 v v * dot_int64 v v < 2 ^ 63
      \<longrightarrow> cosine_similarity_int64 v v = Inr (F64 1))
   \<and> ([] \<notin> set ui \<longrightarrow>
        (\<exists>us. user_similarities ui = Inr us \<and> length us = length ui
              \<and> (\<forall>u < length ui. length (us ! u) = length ui \<and> us ! u ! u = Num 1)))
   \<and> (\<exists>is. interest_similarities ui = Inr is \<and> length is = length (unique_interests ui)
         \<and> (\<forall>i < length (unique_interests ui).
               length (is ! i) = length (unique_interests ui) \<and> is ! i ! i = Num 1))"
  using cosine_similarity_int64_self [of v] user_similarities_diagonal [of ui]
    interest_similarities_diagonal [of ui]
  by blast

theorem self_similarity_is_one_witness:
  "\<not> set [1, 0 :: int64] \<subseteq> {0}
   \<and> dot_int64 [1, 0] [1, 0] * dot_int64 [1, 0] [1, 0] < 2 ^ 63
   \<and> cosine_similarity_int64 [1, 0] [1, 0] = Inr (F64 1)
   \<and> [] \<notin> set users_interests
   \<and> (\<exists>us. user_similarities users_interests = Inr us \<and> length us = length users_interests
          \<and> (\<forall>u < length users_interests.
                length (us ! u) = length users_interests \<and> us ! u ! u = Num 1))
   \<and> (\<exists>is. interest_similarities users_interests = Inr is
          \<and> length is = length (unique_interests users_interests)
          \<and> (\<forall>i < length (unique_interests users_interests).
                length (is ! i) = length (unique_interests users_interests)
                \<and> is ! i ! i = Num 1))"
proof -
  have v: "\<not> set [1, 0 :: int64] \<subseteq> {0}"
    "dot_int64 [1, 0] [1, 0] * dot_int64 [1, 0] [1, 0] < 2 ^ 63"
    by simp_all
  have e: "[] \<notin> set users_interests" by (simp add: users_interests_def)
  from self_similarity_is_one [of "[1, 0]" users_interests] v e show ?thesis by blast
qed

text \<open>
  The vector \<open>[100000]\<close> against itself: the squared norm is \<open>10 ^ 10\<close>, its square wraps
  around to \<open>7766279631452241920\<close>, and the result is about \<open>3.588\<close>, not \<open>1\<close>.
\<close>

theorem self_similarity_int64_wraps:
  "\<not> set [100000 :: int64] \<subseteq> {0}
   \<and> cosine_similarity_int64 [100000] [100000] = Inr (F64 (10000000000 / sqrt 7766279631452241920))
   \<and> cosine_similarity_int64 [100000] [100000] \<noteq> Inr (F64 1)
   \<and> (358 / 100 :: real) < 10000000000 / sqrt 7766279631452241920
   \<and> 10000000000 / sqrt 7766279631452241920 < (359 / 100 :: real)"
proof -
  have a: "cosine_similarity_int64 [100000] [100000]
           = Inr (F64 (10000000000 / sqrt 7766279631452241920))"
    by (simp add: int64_eval)
  have "sqrt 7766279631452241920 < 1000000000000 / 358"
    by (rule real_less_lsqrt) (simp_all add: power2_eq_square)
  then have lo: "(358 / 100 :: real) < 10000000000 / sqrt 7766279631452241920"
    by (simp add: field_simps)
  have "1000000000000 / 359 < sqrt 7766279631452241920"
    by (rule real_less_rsqrt) (simp add: power2_eq_square)
  then have hi: "10000000000 / sqrt 7766279631452241920 < (359 / 100 :: real)"
    by (simp add: field_simps)
  from lo have "10000000000 / sqrt 7766279631452241920 \<noteq> (1 :: real)"
    by linarith
  with a lo hi show ?thesis
    by simp
qed

lemma sqrt_28_bounds: "0.56694 < 3 / sqrt (7 * 4)" "3 / sqrt (7 * 4) < (0.56695 :: real)"
proof -
  have "sqrt 28 < 300000 / 56694"
    by (rule real_less_lsqrt) (simp_all add: power2_eq_square)
  then show "0.56694 < 3 / sqrt (7 * 4)"
    by (simp add: field_simps)
  have "300000 / 56695 < sqrt 28"
    by (rule real_less_rsqrt) (simp add: power2_eq_square)
  then show "3 / sqrt (7 * 4) < (0.56695 :: real)"
    by (simp add: field_simps)
qed

lemma users_0_9:
  "user_sim (users_interests ! 0) (users_interests ! 9) = Num (3 / sqrt (7 * 4))"
proof -
  have i: "set (users_interests ! 0) \<inter> set (users_interests ! 9)
           = {''Big Data'', ''Hadoop'', ''Java''}"
    by (auto simp: users_interests_def)
  have "card (set (users_interests ! 0) \<inter> set (users_interests ! 9)) = 3"
    unfolding i by simp
  moreover have "card (set (users_interests ! 0)) = 7" "card (set (users_interests ! 9)) = 4"
    by (simp_all add: users_interests_def)
  moreover have "users_interests ! 0 \<noteq> []" "users_interests ! 9 \<noteq> []"
    by (simp_all add: users_interests_def)
  ultimately show ?thesis
    by (simp add: user_sim_def)
qed

text \<open>
  Claim C9: in the notebook's table, users 0 and 9 share exactly Big Data, Hadoop and Java,
  have 7 and 4 interests, and their cosine similarity is \<open>3 / sqrt (7 * 4)\<close>, which lies
  between 0.56694 and 0.56695.
\<close>

theorem similarity_users_0_9:
  "cosine_similarity (map real_of_int (user_interest_matrix users_interests ! 0))
                     (map real_of_int (user_interest_matrix users_interests ! 9))
     = Inr (Num (3 / sqrt (7 * 4)))
   \<and> (\<exists>us. user_similarities users_interests = Inr us \<and> us ! 0 ! 9 = Num (3 / sqrt (7 * 4)))
   \<and> set (users_interests ! 0) \<inter> set (users_interests ! 9) = {''Big Data'', ''Hadoop'', ''Java''}
   \<and> length (users_interests ! 0) = 7 \<and> length (users_interests ! 9) = 4
   \<and> 0.56694 < 3 / sqrt (7 * 4) \<and> 3 / sqrt (7 * 4) < (0.56695 :: real)"
proof -
  have len: "length users_interests = 15"
    by (simp add: users_interests_def)
  have a: "cosine_similarity (map real_of_int (user_interest_matrix users_interests ! 0))
                     (map real_of_int (user_interest_matrix users_interests ! 9))
           = Inr (Num (3 / sqrt (7 * 4)))"
    using cosine_similarity_users [of 0 users_interests 9] users_0_9 by (simp add: len)
  have b: "\<exists>us. user_similarities users_interests = Inr us \<and> us ! 0 ! 9 = Num (3 / sqrt (7 * 4))"
    using users_0_9 by (simp add: user_similarities_closed len)
  have c: "set (users_interests ! 0) \<inter> set (users_interests ! 9)
           = {''Big Data'', ''Hadoop'', ''Java''}"
    by (auto simp: users_interests_def)
  have d: "length (users_interests ! 0) = 7" "length (users_interests ! 9) = 4"
    by (simp_all add: users_interests_def)
  from a b c d sqrt_28_bounds show ?thesis by blast
qed

subsection \<open>When the suggestion lists are non-empty\<close>

lemma user_sim_pos:
  assumes "x \<in> set a" "x \<in> set b"
  shows "\<exists>s>0. user_sim a b = Num s"
proof -
  have "x \<in> set a \<inter> set b" using assms by simp
  then have "0 < card (set a \<inter> set b)" by (auto simp: card_gt_0_iff)
  moreover have "0 < card (set a)" "0 < card (set b)"
    using assms by (auto simp: card_gt_0_iff)
  moreover have "a \<noteq> []" "b \<noteq> []" using assms by auto
  ultimately show ?thesis by (simp add: user_sim_def)
qed

lemma co_holders_witness:
  assumes "a \<in> set ui" "x \<in> set a" "y \<in> set a"
  shows "0 < co_holders ui x y"
proof -
  have "a \<in> set (filter (\<lambda>a. x \<in> set a \<and> y \<in> set a) ui)" using assms by simp
  then show ?thesis
    unfolding co_holders_def by (metis length_pos_if_in_set)
qed

lemma interest_sim_pos:
  assumes "a \<in> set ui" "x \<in> set a" "y \<in> set a"
  shows "\<exists>s>0. interest_sim ui x y = Num s"
  using co_holders_witness [OF assms] co_holders_witness [OF assms(1,2,2)]
    co_holders_witness [OF assms(1,3,3)]
  by (simp add: interest_sim_def)

lemma suggestions_nonempty:
  assumes "(y, s) \<in> set cs" "y \<notin> set current"
  shows "filter (\<lambda>(i, w). i \<notin> set current) (sorted_desc snd (add_similar_interests cs [])) \<noteq> []"
proof -
  have "y \<in> fst ` set cs" using assms(1) by force
  then have "y \<in> fst ` set (add_similar_interests cs [])"
    by (simp add: key_set_add_similar_interests)
  then obtain w where "(y, w) \<in> set (sorted_desc snd (add_similar_interests cs []))"
    by (auto simp: set_sorted_desc)
  with assms(2) show ?thesis
    by (auto simp: filter_empty_conv)
qed

text \<open>
  Claim C7, as the code has it: when some user \<open>v\<close> shares an interest \<open>x\<close> with the user
  and holds an interest \<open>y\<close> that the user does not hold, both suggestion lists (default
  filtering) are non-empty.
\<close>

theorem both_suggestions_nonempty:
  assumes "0 \<le> user_id" "user_id < int (length ui)" "v < length ui"
    and "x \<in> set (ui ! nat user_id)" "x \<in> set (ui ! v)"
    and "y \<in> set (ui ! v)" "y \<notin> set (ui ! nat user_id)"
  shows "\<exists>user_based item_based.
           user_based_suggestions ui user_id False = Inr user_based
         \<and> item_based_suggestions ui user_id False = Inr item_based
         \<and> user_based \<noteq> [] \<and> item_based \<noteq> []"
proof -
  let ?u = "nat user_id"
  have u: "?u < length ui" "int ?u = user_id" using assms(1,2) by simp_all
  have vu: "v \<noteq> ?u" using assms(6,7) by auto
  from get_similar_users_total [OF assms(1,2)]
  obtain similar where similar: "get_similar_users ui user_id = Inr similar" ..
  from user_sim_pos [OF assms(4,5)]
  obtain s where s: "0 < s" "user_sim (ui ! ?u) (ui ! v) = Num s" by blast
  have "(v, s) \<in> set similar"
    using similar assms(3) s vu u(2) unfolding get_similar_users_eq [OF assms(1,2)]
    by (auto simp: set_sorted_desc similar_pairs_set)
  then have "(y, s) \<in> set (user_contributions ui similar)"
    using assms(6) unfolding user_contributions_def by force
  then have ub: "filter (\<lambda>(i, w). i \<notin> set (ui ! ?u))
                  (sorted_desc snd (add_similar_interests (user_contributions ui similar) [])) \<noteq> []"
    using assms(7) by (rule suggestions_nonempty)
  let ?names = "unique_interests ui"
  let ?vec = "generate_user_interest_vector ui (ui ! ?u)"
  have "x \<in> set ?names" "y \<in> set ?names"
    using assms(3,5,6) by (auto simp: set_unique_interests)
  then obtain i j where i: "i < length ?names" "?names ! i = x"
    and j: "j < length ?names" "?names ! j = y"
    by (auto simp: in_set_conv_nth)
  have ij: "j \<noteq> i" using i j assms(4,7) by auto
  have held: "?vec ! i = 1"
    using i assms(4) by (simp add: nth_generate_user_interest_vector)
  from interest_sim_pos [of "ui ! v" ui x y] assms(3,5,6)
  obtain t where t: "0 < t" "interest_sim ui x y = Num t" by auto
  have "(y, t) \<in> set (similar_interests ui i)"
    unfolding set_similar_interests using i j ij t by auto
  moreover have "(i, 1) \<in> set (enumerate 0 ?vec)"
    using i held by (simp add: in_set_enumerate_eq length_generate_user_interest_vector)
  ultimately have "(y, t) \<in> set (item_contributions ui (enumerate 0 ?vec))"
    unfolding item_contributions_def by force
  then have ib: "filter (\<lambda>(i, w). i \<notin> set (ui ! ?u))
                  (sorted_desc snd (add_similar_interests
                     (item_contributions ui (enumerate 0 ?vec)) [])) \<noteq> []"
    using assms(7) by (rule suggestions_nonempty)
  show ?thesis
    unfolding user_based_suggestions_eq [OF assms(1,2) similar]
      item_based_suggestions_eq [OF assms(1,2)]
    using ub ib by (simp add: Let_def)
qed

theorem both_suggestions_nonempty_witness:
  "(0::int) \<le> 0 \<and> 0 < int (length users_interests) \<and> 9 < length users_interests
   \<and> ''Hadoop'' \<in> set (users_interests ! nat 0) \<and> ''Hadoop'' \<in> set (users_interests ! 9)
   \<and> ''MapReduce'' \<in> set (users_interests ! 9)
   \<and> ''MapReduce'' \<notin> set (users_interests ! nat 0)
   \<and> (\<exists>user_based item_based.
           user_based_suggestions users_interests 0 False = Inr user_based
         \<and> item_based_suggestions users_interests 0 False = Inr item_based
         \<and> user_based \<noteq> [] \<and> item_based \<noteq> [])"
proof -
  have h: "(0::int) \<le> 0" "0 < int (length users_interests)" "9 < length users_interests"
    "''Hadoop'' \<in> set (users_interests ! nat 0)" "''Hadoop'' \<in> set (users_interests ! 9)"
    "''MapReduce'' \<in> set (users_interests ! 9)"
    "''MapReduce'' \<notin> set (users_interests ! nat 0)"
    by (simp_all add: users_interests_def)
  from both_suggestions_nonempty [OF h] h show ?thesis by blast
qed

lemma two_users_unique: "unique_interests [[''a''], [''a'']] = [''a'']"
  by (simp add: unique_interests_def)

text \<open>
  Two users with the same single interest: they share it, and both suggestion lists of
  user 0 are empty, since the only candidate is an interest the user has.
\<close>

theorem shared_interest_empty_suggestions:
  "set ([[''a''], [''a'']] ! 0) \<inter> set ([[''a''], [''a'']] ! 1) \<noteq> {}
   \<and> user_based_suggestions [[''a''], [''a'']] 0 False = Inr []
   \<and> item_based_suggestions [[''a''], [''a'']] 0 False = Inr []"
proof -
  have "user_based_suggestions [[''a''], [''a'']] 0 False = Inr []"
    by (simp add: user_based_suggestions_def get_similar_users_def user_similarities_def
          similarity_matrix_def user_interest_matrix_def generate_user_interest_vector_def
          two_users_unique cosine_similarity_def np_dot_def py_index_def sorted_desc_def
          List.map_filter_def similar_pair_def)
  moreover have "item_based_suggestions [[''a''], [''a'']] 0 False = Inr []"
    by (simp add: item_based_suggestions_def get_similar_interests_def interest_similarities_def
          interest_user_matrix_def similarity_matrix_def user_interest_matrix_def
          generate_user_interest_vector_def two_users_unique cosine_similarity_def np_dot_def
          py_index_def sorted_desc_def List.map_filter_def similar_pair_def)
  ultimately show ?thesis by simp
qed

lemma user_sim_positive_shares:
  assumes "user_sim a b = Num s" "0 < s"
  shows "set a \<inter> set b \<noteq> {}"
proof
  assume "set a \<inter> set b = {}"
  then have "card (set a \<inter> set b) = 0" by simp
  with assms show False
    by (simp add: user_sim_def split: if_splits)
qed

lemma co_holders_positive:
  assumes "0 < co_holders ui x y"
  shows "\<exists>v < length ui. x \<in> set (ui ! v) \<and> y \<in> set (ui ! v)"
proof -
  from assms have "filter (\<lambda>a. x \<in> set a \<and> y \<in> set a) ui \<noteq> []"
    by (simp add: co_holders_def)
  then obtain a where "a \<in> set ui" "x \<in> set a" "y \<in> set a"
    by (auto simp: filter_empty_conv)
  then show ?thesis
    by (auto simp: in_set_conv_nth)
qed

lemma interest_sim_positive_shares:
  assumes "interest_sim ui x y = Num s" "0 < s"
  shows "\<exists>v < length ui. x \<in> set (ui ! v) \<and> y \<in> set (ui ! v)"
proof (rule co_holders_positive)
  show "0 < co_holders ui x y"
  proof (rule ccontr)
    assume "\<not> 0 < co_holders ui x y"
    then have "co_holders ui x y = 0" by simp
    with assms show False
      by (simp add: interest_sim_def split: if_splits)
  qed
qed

lemma suggestions_key_origin:
  assumes "p \<in> set (filter (\<lambda>(i, w). i \<notin> set current)
                      (sorted_desc snd (add_similar_interests cs [])))"
  shows "fst p \<notin> set current \<and> fst p \<in> fst ` set cs"
proof -
  from assms have "fst p \<notin> set current" and "p \<in> set (add_similar_interests cs [])"
    by (auto simp: set_sorted_desc)
  moreover from this(2) have "fst p \<in> fst ` set (add_similar_interests cs [])"
    by (rule imageI)
  ultimately show ?thesis
    by (simp add: key_set_add_similar_interests)
qed

text \<open>
  The condition is also necessary: when either suggestion list (default filtering) is
  non-empty, some user shares an interest with the user and holds one the user does not.
\<close>

lemma nonempty_suggestions_need_new_interest:
  assumes "0 \<le> user_id" "user_id < int (length ui)"
    and "(\<exists>p ps. user_based_suggestions ui user_id False = Inr (p # ps))
         \<or> (\<exists>p ps. item_based_suggestions ui user_id False = Inr (p # ps))"
  shows "\<exists>v < length ui. \<exists>x y.
           x \<in> set (ui ! nat user_id) \<and> x \<in> set (ui ! v)
         \<and> y \<in> set (ui ! v) \<and> y \<notin> set (ui ! nat user_id)"
  using assms(3)
proof
  assume "\<exists>p ps. user_based_suggestions ui user_id False = Inr (p # ps)"
  then obtain p ps where res: "user_based_suggestions ui user_id False = Inr (p # ps)"
    by blast
  from get_similar_users_total [OF assms(1,2)]
  obtain similar where similar: "get_similar_users ui user_id = Inr similar" ..
  from res have "p \<in> set (filter (\<lambda>(i, w). i \<notin> set (ui ! nat user_id))
                  (sorted_desc snd (add_similar_interests (user_contributions ui similar) [])))"
    unfolding user_based_suggestions_eq [OF assms(1,2) similar]
    by (simp add: Let_def)
  from suggestions_key_origin [OF this]
  have new: "fst p \<notin> set (ui ! nat user_id)"
    and "fst p \<in> fst ` set (user_contributions ui similar)"
    by simp_all
  then obtain v s where vs: "(v, s) \<in> set similar" and held: "fst p \<in> set (ui ! v)"
    unfolding user_contributions_def by force
  from vs similar have v: "v < length ui" and s: "0 < s"
    and sim: "user_sim (ui ! nat user_id) (ui ! v) = Num s"
    unfolding get_similar_users_eq [OF assms(1,2)]
    by (auto simp: set_sorted_desc similar_pairs_set)
  from user_sim_positive_shares [OF sim s]
  obtain x where "x \<in> set (ui ! nat user_id)" "x \<in> set (ui ! v)" by auto
  with v held new show ?thesis by blast
next
  assume "\<exists>p ps. item_based_suggestions ui user_id False = Inr (p # ps)"
  then obtain p ps where res: "item_based_suggestions ui user_id False = Inr (p # ps)"
    by blast
  let ?names = "unique_interests ui"
  let ?vec = "generate_user_interest_vector ui (ui ! nat user_id)"
  from res have "p \<in> set (filter (\<lambda>(i, w). i \<notin> set (ui ! nat user_id))
                  (sorted_desc snd (add_similar_interests
                     (item_contributions ui (enumerate 0 ?vec)) [])))"
    unfolding item_based_suggestions_eq [OF assms(1,2)]
    by (simp add: Let_def)
  from suggestions_key_origin [OF this]
  have new: "fst p \<notin> set (ui ! nat user_id)"
    and "fst p \<in> fst ` set (item_contributions ui (enumerate 0 ?vec))"
    by simp_all
  then obtain i s where i: "i < length ?names" "?vec ! i = 1"
    and mem: "(fst p, s) \<in> set (similar_interests ui i)"
    unfolding item_contributions_def
    by (force simp: in_set_enumerate_eq length_generate_user_interest_vector split: if_splits)
  from mem obtain j where s: "0 < s" and j: "fst p = ?names ! j"
    and sim: "interest_sim ui (?names ! i) (?names ! j) = Num s"
    unfolding set_similar_interests by auto
  from i have held: "?names ! i \<in> set (ui ! nat user_id)"
    by (simp add: nth_generate_user_interest_vector split: if_splits)
  from interest_sim_positive_shares [OF sim s]
  obtain v where "v < length ui" "?names ! i \<in> set (ui ! v)" "?names ! j \<in> set (ui ! v)"
    by blast
  with held new j show ?thesis by auto
qed

section \<open>The notebook's printed outputs\<close>

text \<open>
  The cells of the notebook print the results of its calls. The functions above, evaluated at
  the same arguments, give the same lists in the same order; the similarities are exact
  here (\<open>3 / sqrt 28\<close> where the notebook prints 0.5669467095138409).
\<close>

subsection \<open>Cells 2 to 4: the popularity baseline\<close>

lemma notebook_popular_interests:
  "take 5 (popular_interests users_interests) =
     [(''Python'', 4), (''R'', 4), (''Big Data'', 3), (''HBase'', 3), (''Java'', 3)]"
  by code_simp

lemma notebook_most_popular_new_interests:
  "most_popular_new_interests users_interests (users_interests ! 1) 5 =
     [(''Python'', 4), (''R'', 4), (''Big Data'', 3), (''Java'', 3), (''statistics'', 3)]"
  "most_popular_new_interests users_interests (users_interests ! 3) 5 =
     [(''Big Data'', 3), (''HBase'', 3), (''Java'', 3), (''Hadoop'', 2), (''Cassandra'', 2)]"
  by code_simp+

subsection \<open>Cell 20: the interests similar to Big Data\<close>

lemma notebook_unique_interests:
  "unique_interests users_interests =
   [''Big Data'', ''C++'', ''Cassandra'', ''HBase'', ''Hadoop'', ''Haskell'',
    ''Java'', ''Mahout'', ''MapReduce'', ''MongoDB'', ''MySQL'', ''NoSQL'',
    ''Postgres'', ''Python'', ''R'', ''Spark'', ''Storm'',
    ''artificial intelligence'', ''databases'', ''decision trees'',
    ''deep learning'', ''libsvm'', ''machine learning'', ''mathematics'',
    ''neural networks'', ''numpy'', ''pandas'', ''probability'',
    ''programming languages'', ''regression'', ''scikit-learn'', ''scipy'',
    ''statistics'', ''statsmodels'', ''support vector machines'', ''theory'']"
  by code_simp

lemma interest_sim_of:
  "interest_sim ui x y = sim_of (co_holders ui x x) (co_holders ui x y, co_holders ui y y)"
  by (simp add: interest_sim_def sim_of_def)


lemma le_div_sqrt_iff:
  assumes "0 \<le> x" "0 < d" "0 \<le> c"
  shows "x \<le> c / sqrt d \<longleftrightarrow> x\<^sup>2 * d \<le> c\<^sup>2"
proof -
  have "x \<le> c / sqrt d \<longleftrightarrow> x * sqrt d \<le> c"
    using assms by (simp add: field_simps)
  also have "\<dots> \<longleftrightarrow> (x * sqrt d)\<^sup>2 \<le> c\<^sup>2"
    using assms by (subst power_mono_iff) simp_all
  also have "\<dots> \<longleftrightarrow> x\<^sup>2 * d \<le> c\<^sup>2"
    using assms by (simp add: power_mult_distrib)
  finally show ?thesis .
qed

lemma div_sqrt_le_iff2:
  assumes "0 \<le> x" "0 < b" "0 \<le> a"
  shows "a / sqrt b \<le> x \<longleftrightarrow> a\<^sup>2 \<le> x\<^sup>2 * b"
proof -
  have "a / sqrt b \<le> x \<longleftrightarrow> a \<le> x * sqrt b"
    using assms by (simp add: field_simps)
  also have "\<dots> \<longleftrightarrow> a\<^sup>2 \<le> (x * sqrt b)\<^sup>2"
    using assms by (subst power_mono_iff) simp_all
  also have "\<dots> \<longleftrightarrow> a\<^sup>2 \<le> x\<^sup>2 * b"
    using assms by (simp add: power_mult_distrib)
  finally show ?thesis .
qed

lemma sqrt_le_iff_le_square: "0 \<le> y \<Longrightarrow> sqrt x \<le> y \<longleftrightarrow> x \<le> y\<^sup>2"
  using real_sqrt_le_iff [of x "y\<^sup>2"] by simp

lemma le_sqrt_iff_square_le: "0 \<le> y \<Longrightarrow> y \<le> sqrt x \<longleftrightarrow> y\<^sup>2 \<le> x"
  using real_sqrt_le_iff [of "y\<^sup>2" x] by simp

lemmas sqrt_compare =
  div_sqrt_le_iff
  le_div_sqrt_iff [of "numeral p / numeral q" for p q]
  le_div_sqrt_iff [of "1 / numeral q" for q]
  le_div_sqrt_iff [of "numeral p" for p]
  le_div_sqrt_iff [of 1]
  div_sqrt_le_iff2 [of "numeral p / numeral q" for p q]
  div_sqrt_le_iff2 [of "1 / numeral q" for q]
  div_sqrt_le_iff2 [of "numeral p" for p]
  div_sqrt_le_iff2 [of 1]
  sqrt_le_iff_le_square [of "numeral p" for p]
  le_sqrt_iff_square_le [of "numeral p" for p]

text \<open>
  For each interest that user 0 holds: the counts of holders, the row of the
  interest-similarity matrix, and the result of \<^verbatim>\<open>get_similar_interests\<close>. The first of
  them, Big Data, is the one the notebook prints.
\<close>

lemma holders_Big_Data:
  "map (\<lambda>y. (co_holders users_interests ''Big Data'' y, co_holders users_interests y y))
       (unique_interests users_interests) =
   [
    (3, 3), (0, 2), (1, 2), (1, 3), (2, 2), (0, 1), (2, 3), (0, 1), (1, 1), (0, 2), (0, 1),
    (0, 1), (0, 2), (0, 4), (0, 4), (1, 1), (1, 1), (1, 2), (0, 1), (0, 1), (1, 2), (0, 2),
    (0, 2), (0, 1), (1, 2), (0, 1), (0, 2), (0, 3), (0, 1), (0, 3), (0, 2), (0, 1), (0, 3),
    (0, 2), (0, 1), (0, 1)]"
  by code_simp

lemma enumerate_Big_Data:
  "enumerate 0 (map (interest_sim users_interests ''Big Data'') (unique_interests users_interests)) =
   [
    (0, Num 1), (1, Num 0), (2, Num (1 / sqrt 6)), (3, Num (1 / 3)), (4, Num (2 / sqrt 6)),
    (5, Num 0), (6, Num (2 / 3)), (7, Num 0), (8, Num (1 / sqrt 3)), (9, Num 0),
    (10, Num 0), (11, Num 0), (12, Num 0), (13, Num 0), (14, Num 0),
    (15, Num (1 / sqrt 3)), (16, Num (1 / sqrt 3)), (17, Num (1 / sqrt 6)), (18, Num 0),
    (19, Num 0), (20, Num (1 / sqrt 6)), (21, Num 0), (22, Num 0), (23, Num 0),
    (24, Num (1 / sqrt 6)), (25, Num 0), (26, Num 0), (27, Num 0), (28, Num 0),
    (29, Num 0), (30, Num 0), (31, Num 0), (32, Num 0), (33, Num 0), (34, Num 0),
    (35, Num 0)]"
proof -
  have "co_holders users_interests ''Big Data'' ''Big Data'' = 3"
    by code_simp
  then have "map (interest_sim users_interests ''Big Data'') (unique_interests users_interests)
    = map (sim_of 3)
        (map (\<lambda>y. (co_holders users_interests ''Big Data'' y, co_holders users_interests y y))
           (unique_interests users_interests))"
    by (simp add: interest_sim_of comp_def)
  then show ?thesis
    unfolding holders_Big_Data
    by (simp add: sim_of_def enumerate_eq_zip upt_rec)
qed

lemma similar_Big_Data:
  "similar_interests users_interests 0 =
   [
    (''Hadoop'', 2 / sqrt 6), (''Java'', 2 / 3), (''MapReduce'', 1 / sqrt 3),
    (''Spark'', 1 / sqrt 3), (''Storm'', 1 / sqrt 3), (''Cassandra'', 1 / sqrt 6),
    (''artificial intelligence'', 1 / sqrt 6), (''deep learning'', 1 / sqrt 6),
    (''neural networks'', 1 / sqrt 6), (''HBase'', 1 / 3)]"
proof -
  have n: "unique_interests users_interests ! 0 = ''Big Data''"
    by (simp add: notebook_unique_interests)
  show ?thesis
    unfolding similar_interests_def n enumerate_Big_Data
    by (simp add: similar_pair_def notebook_unique_interests sorted_desc_def
          sqrt_compare)
qed

lemma holders_Cassandra:
  "map (\<lambda>y. (co_holders users_interests ''Cassandra'' y, co_holders users_interests y y))
       (unique_interests users_interests) =
   [
    (1, 3), (0, 2), (2, 2), (2, 3), (1, 2), (0, 1), (1, 3), (0, 1), (0, 1), (1, 2), (0, 1),
    (1, 1), (1, 2), (0, 4), (0, 4), (1, 1), (1, 1), (0, 2), (0, 1), (0, 1), (0, 2), (0, 2),
    (0, 2), (0, 1), (0, 2), (0, 1), (0, 2), (0, 3), (0, 1), (0, 3), (0, 2), (0, 1), (0, 3),
    (0, 2), (0, 1), (0, 1)]"
  by code_simp

lemma enumerate_Cassandra:
  "enumerate 0 (map (interest_sim users_interests ''Cassandra'') (unique_interests users_interests)) =
   [
    (0, Num (1 / sqrt 6)), (1, Num 0), (2, Num 1), (3, Num (2 / sqrt 6)), (4, Num (1 / 2)),
    (5, Num 0), (6, Num (1 / sqrt 6)), (7, Num 0), (8, Num 0), (9, Num (1 / 2)),
    (10, Num 0), (11, Num (1 / sqrt 2)), (12, Num (1 / 2)), (13, Num 0), (14, Num 0),
    (15, Num (1 / sqrt 2)), (16, Num (1 / sqrt 2)), (17, Num 0), (18, Num 0), (19, Num 0),
    (20, Num 0), (21, Num 0), (22, Num 0), (23, Num 0), (24, Num 0), (25, Num 0),
    (26, Num 0), (27, Num 0), (28, Num 0), (29, Num 0), (30, Num 0), (31, Num 0),
    (32, Num 0), (33, Num 0), (34, Num 0), (35, Num 0)]"
proof -
  have "co_holders users_interests ''Cassandra'' ''Cassandra'' = 2"
    by code_simp
  then have "map (interest_sim users_interests ''Cassandra'') (unique_interests users_interests)
    = map (sim_of 2)
        (map (\<lambda>y. (co_holders users_interests ''Cassandra'' y, co_holders users_interests y y))
           (unique_interests users_interests))"
    by (simp add: interest_sim_of comp_def)
  then show ?thesis
    unfolding holders_Cassandra
    by (simp add: sim_of_def enumerate_eq_zip upt_rec)
qed

lemma similar_Cassandra:
  "similar_interests users_interests 2 =
   [
    (''HBase'', 2 / sqrt 6), (''NoSQL'', 1 / sqrt 2), (''Spark'', 1 / sqrt 2),
    (''Storm'', 1 / sqrt 2), (''Hadoop'', 1 / 2), (''MongoDB'', 1 / 2),
    (''Postgres'', 1 / 2), (''Big Data'', 1 / sqrt 6), (''Java'', 1 / sqrt 6)]"
proof -
  have n: "unique_interests users_interests ! 2 = ''Cassandra''"
    by (simp add: notebook_unique_interests)
  show ?thesis
    unfolding similar_interests_def n enumerate_Cassandra
    by (simp add: similar_pair_def notebook_unique_interests sorted_desc_def
          sqrt_compare)
qed

lemma holders_HBase:
  "map (\<lambda>y. (co_holders users_interests ''HBase'' y, co_holders users_interests y y))
       (unique_interests users_interests) =
   [
    (1, 3), (0, 2), (2, 2), (3, 3), (1, 2), (0, 1), (1, 3), (0, 1), (0, 1), (2, 2), (1, 1),
    (1, 1), (2, 2), (0, 4), (0, 4), (1, 1), (1, 1), (0, 2), (1, 1), (0, 1), (0, 2), (0, 2),
    (0, 2), (0, 1), (0, 2), (0, 1), (0, 2), (0, 3), (0, 1), (0, 3), (0, 2), (0, 1), (0, 3),
    (0, 2), (0, 1), (0, 1)]"
  by code_simp

lemma enumerate_HBase:
  "enumerate 0 (map (interest_sim users_interests ''HBase'') (unique_interests users_interests)) =
   [
    (0, Num (1 / 3)), (1, Num 0), (2, Num (2 / sqrt 6)), (3, Num 1), (4, Num (1 / sqrt 6)),
    (5, Num 0), (6, Num (1 / 3)), (7, Num 0), (8, Num 0), (9, Num (2 / sqrt 6)),
    (10, Num (1 / sqrt 3)), (11, Num (1 / sqrt 3)), (12, Num (2 / sqrt 6)), (13, Num 0),
    (14, Num 0), (15, Num (1 / sqrt 3)), (16, Num (1 / sqrt 3)), (17, Num 0),
    (18, Num (1 / sqrt 3)), (19, Num 0), (20, Num 0), (21, Num 0), (22, Num 0),
    (23, Num 0), (24, Num 0), (25, Num 0), (26, Num 0), (27, Num 0), (28, Num 0),
    (29, Num 0), (30, Num 0), (31, Num 0), (32, Num 0), (33, Num 0), (34, Num 0),
    (35, Num 0)]"
proof -
  have "co_holders users_interests ''HBase'' ''HBase'' = 3"
    by code_simp
  then have "map (interest_sim users_interests ''HBase'') (unique_interests users_interests)
    = map (sim_of 3)
        (map (\<lambda>y. (co_holders users_interests ''HBase'' y, co_holders users_interests y y))
           (unique_interests users_interests))"
    by (simp add: interest_sim_of comp_def)
  then show ?thesis
    unfolding holders_HBase
    by (simp add: sim_of_def enumerate_eq_zip upt_rec)
qed

lemma similar_HBase:
  "similar_interests users_interests 3 =
   [
    (''Cassandra'', 2 / sqrt 6), (''MongoDB'', 2 / sqrt 6), (''Postgres'', 2 / sqrt 6),
    (''MySQL'', 1 / sqrt 3), (''NoSQL'', 1 / sqrt 3), (''Spark'', 1 / sqrt 3),
    (''Storm'', 1 / sqrt 3), (''databases'', 1 / sqrt 3), (''Hadoop'', 1 / sqrt 6),
    (''Big Data'', 1 / 3), (''Java'', 1 / 3)]"
proof -
  have n: "unique_interests users_interests ! 3 = ''HBase''"
    by (simp add: notebook_unique_interests)
  show ?thesis
    unfolding similar_interests_def n enumerate_HBase
    by (simp add: similar_pair_def notebook_unique_interests sorted_desc_def
          sqrt_compare)
qed

lemma holders_Hadoop:
  "map (\<lambda>y. (co_holders users_interests ''Hadoop'' y, co_holders users_interests y y))
       (unique_interests users_interests) =
   [
    (2, 3), (0, 2), (1, 2), (1, 3), (2, 2), (0, 1), (2, 3), (0, 1), (1, 1), (0, 2), (0, 1),
    (0, 1), (0, 2), (0, 4), (0, 4), (1, 1), (1, 1), (0, 2), (0, 1), (0, 1), (0, 2), (0, 2),
    (0, 2), (0, 1), (0, 2), (0, 1), (0, 2), (0, 3), (0, 1), (0, 3), (0, 2), (0, 1), (0, 3),
    (0, 2), (0, 1), (0, 1)]"
  by code_simp

lemma enumerate_Hadoop:
  "enumerate 0 (map (interest_sim users_interests ''Hadoop'') (unique_interests users_interests)) =
   [
    (0, Num (2 / sqrt 6)), (1, Num 0), (2, Num (1 / 2)), (3, Num (1 / sqrt 6)), (4, Num 1),
    (5, Num 0), (6, Num (2 / sqrt 6)), (7, Num 0), (8, Num (1 / sqrt 2)), (9, Num 0),
    (10, Num 0), (11, Num 0), (12, Num 0), (13, Num 0), (14, Num 0),
    (15, Num (1 / sqrt 2)), (16, Num (1 / sqrt 2)), (17, Num 0), (18, Num 0), (19, Num 0),
    (20, Num 0), (21, Num 0), (22, Num 0), (23, Num 0), (24, Num 0), (25, Num 0),
    (26, Num 0), (27, Num 0), (28, Num 0), (29, Num 0), (30, Num 0), (31, Num 0),
    (32, Num 0), (33, Num 0), (34, Num 0), (35, Num 0)]"
proof -
  have "co_holders users_interests ''Hadoop'' ''Hadoop'' = 2"
    by code_simp
  then have "map (interest_sim users_interests ''Hadoop'') (unique_interests users_interests)
    = map (sim_of 2)
        (map (\<lambda>y. (co_holders users_interests ''Hadoop'' y, co_holders users_interests y y))
           (unique_interests users_interests))"
    by (simp add: interest_sim_of comp_def)
  then show ?thesis
    unfolding holders_Hadoop
    by (simp add: sim_of_def enumerate_eq_zip upt_rec)
qed

lemma similar_Hadoop:
  "similar_interests users_interests 4 =
   [
    (''Big Data'', 2 / sqrt 6), (''Java'', 2 / sqrt 6), (''MapReduce'', 1 / sqrt 2),
    (''Spark'', 1 / sqrt 2), (''Storm'', 1 / sqrt 2), (''Cassandra'', 1 / 2),
    (''HBase'', 1 / sqrt 6)]"
proof -
  have n: "unique_interests users_interests ! 4 = ''Hadoop''"
    by (simp add: notebook_unique_interests)
  show ?thesis
    unfolding similar_interests_def n enumerate_Hadoop
    by (simp add: similar_pair_def notebook_unique_interests sorted_desc_def
          sqrt_compare)
qed

lemma holders_Java:
  "map (\<lambda>y. (co_holders users_interests ''Java'' y, co_holders users_interests y y))
       (unique_interests users_interests) =
   [
    (2, 3), (1, 2), (1, 2), (1, 3), (2, 2), (1, 1), (3, 3), (0, 1), (1, 1), (0, 2), (0, 1),
    (0, 1), (0, 2), (1, 4), (1, 4), (1, 1), (1, 1), (0, 2), (0, 1), (0, 1), (0, 2), (0, 2),
    (0, 2), (0, 1), (0, 2), (0, 1), (0, 2), (0, 3), (1, 1), (0, 3), (0, 2), (0, 1), (0, 3),
    (0, 2), (0, 1), (0, 1)]"
  by code_simp

lemma enumerate_Java:
  "enumerate 0 (map (interest_sim users_interests ''Java'') (unique_interests users_interests)) =
   [
    (0, Num (2 / 3)), (1, Num (1 / sqrt 6)), (2, Num (1 / sqrt 6)), (3, Num (1 / 3)),
    (4, Num (2 / sqrt 6)), (5, Num (1 / sqrt 3)), (6, Num 1), (7, Num 0),
    (8, Num (1 / sqrt 3)), (9, Num 0), (10, Num 0), (11, Num 0), (12, Num 0),
    (13, Num (1 / sqrt 12)), (14, Num (1 / sqrt 12)), (15, Num (1 / sqrt 3)),
    (16, Num (1 / sqrt 3)), (17, Num 0), (18, Num 0), (19, Num 0), (20, Num 0),
    (21, Num 0), (22, Num 0), (23, Num 0), (24, Num 0), (25, Num 0), (26, Num 0),
    (27, Num 0), (28, Num (1 / sqrt 3)), (29, Num 0), (30, Num 0), (31, Num 0),
    (32, Num 0), (33, Num 0), (34, Num 0), (35, Num 0)]"
proof -
  have "co_holders users_interests ''Java'' ''Java'' = 3"
    by code_simp
  then have "map (interest_sim users_interests ''Java'') (unique_interests users_interests)
    = map (sim_of 3)
        (map (\<lambda>y. (co_holders users_interests ''Java'' y, co_holders users_interests y y))
           (unique_interests users_interests))"
    by (simp add: interest_sim_of comp_def)
  then show ?thesis
    unfolding holders_Java
    by (simp add: sim_of_def enumerate_eq_zip upt_rec)
qed

lemma similar_Java:
  "similar_interests users_interests 6 =
   [
    (''Hadoop'', 2 / sqrt 6), (''Big Data'', 2 / 3), (''Haskell'', 1 / sqrt 3),
    (''MapReduce'', 1 / sqrt 3), (''Spark'', 1 / sqrt 3), (''Storm'', 1 / sqrt 3),
    (''programming languages'', 1 / sqrt 3), (''C++'', 1 / sqrt 6),
    (''Cassandra'', 1 / sqrt 6), (''HBase'', 1 / 3), (''Python'', 1 / sqrt 12),
    (''R'', 1 / sqrt 12)]"
proof -
  have n: "unique_interests users_interests ! 6 = ''Java''"
    by (simp add: notebook_unique_interests)
  show ?thesis
    unfolding similar_interests_def n enumerate_Java
    by (simp add: similar_pair_def notebook_unique_interests sorted_desc_def
          sqrt_compare)
qed

lemma holders_Spark:
  "map (\<lambda>y. (co_holders users_interests ''Spark'' y, co_holders users_interests y y))
       (unique_interests users_interests) =
   [
    (1, 3), (0, 2), (1, 2), (1, 3), (1, 2), (0, 1), (1, 3), (0, 1), (0, 1), (0, 2), (0, 1),
    (0, 1), (0, 2), (0, 4), (0, 4), (1, 1), (1, 1), (0, 2), (0, 1), (0, 1), (0, 2), (0, 2),
    (0, 2), (0, 1), (0, 2), (0, 1), (0, 2), (0, 3), (0, 1), (0, 3), (0, 2), (0, 1), (0, 3),
    (0, 2), (0, 1), (0, 1)]"
  by code_simp

lemma enumerate_Spark:
  "enumerate 0 (map (interest_sim users_interests ''Spark'') (unique_interests users_interests)) =
   [
    (0, Num (1 / sqrt 3)), (1, Num 0), (2, Num (1 / sqrt 2)), (3, Num (1 / sqrt 3)),
    (4, Num (1 / sqrt 2)), (5, Num 0), (6, Num (1 / sqrt 3)), (7, Num 0), (8, Num 0),
    (9, Num 0), (10, Num 0), (11, Num 0), (12, Num 0), (13, Num 0), (14, Num 0),
    (15, Num 1), (16, Num 1), (17, Num 0), (18, Num 0), (19, Num 0), (20, Num 0),
    (21, Num 0), (22, Num 0), (23, Num 0), (24, Num 0), (25, Num 0), (26, Num 0),
    (27, Num 0), (28, Num 0), (29, Num 0), (30, Num 0), (31, Num 0), (32, Num 0),
    (33, Num 0), (34, Num 0), (35, Num 0)]"
proof -
  have "co_holders users_interests ''Spark'' ''Spark'' = 1"
    by code_simp
  then have "map (interest_sim users_interests ''Spark'') (unique_interests users_interests)
    = map (sim_of 1)
        (map (\<lambda>y. (co_holders users_interests ''Spark'' y, co_holders users_interests y y))
           (unique_interests users_interests))"
    by (simp add: interest_sim_of comp_def)
  then show ?thesis
    unfolding holders_Spark
    by (simp add: sim_of_def enumerate_eq_zip upt_rec)
qed

lemma similar_Spark:
  "similar_interests users_interests 15 =
   [
    (''Storm'', 1), (''Cassandra'', 1 / sqrt 2), (''Hadoop'', 1 / sqrt 2),
    (''Big Data'', 1 / sqrt 3), (''HBase'', 1 / sqrt 3), (''Java'', 1 / sqrt 3)]"
proof -
  have n: "unique_interests users_interests ! 15 = ''Spark''"
    by (simp add: notebook_unique_interests)
  show ?thesis
    unfolding similar_interests_def n enumerate_Spark
    by (simp add: similar_pair_def notebook_unique_interests sorted_desc_def
          sqrt_compare)
qed

lemma holders_Storm:
  "map (\<lambda>y. (co_holders users_interests ''Storm'' y, co_holders users_interests y y))
       (unique_interests users_interests) =
   [
    (1, 3), (0, 2), (1, 2), (1, 3), (1, 2), (0, 1), (1, 3), (0, 1), (0, 1), (0, 2), (0, 1),
    (0, 1), (0, 2), (0, 4), (0, 4), (1, 1), (1, 1), (0, 2), (0, 1), (0, 1), (0, 2), (0, 2),
    (0, 2), (0, 1), (0, 2), (0, 1), (0, 2), (0, 3), (0, 1), (0, 3), (0, 2), (0, 1), (0, 3),
    (0, 2), (0, 1), (0, 1)]"
  by code_simp

lemma enumerate_Storm:
  "enumerate 0 (map (interest_sim users_interests ''Storm'') (unique_interests users_interests)) =
   [
    (0, Num (1 / sqrt 3)), (1, Num 0), (2, Num (1 / sqrt 2)), (3, Num (1 / sqrt 3)),
    (4, Num (1 / sqrt 2)), (5, Num 0), (6, Num (1 / sqrt 3)), (7, Num 0), (8, Num 0),
    (9, Num 0), (10, Num 0), (11, Num 0), (12, Num 0), (13, Num 0), (14, Num 0),
    (15, Num 1), (16, Num 1), (17, Num 0), (18, Num 0), (19, Num 0), (20, Num 0),
    (21, Num 0), (22, Num 0), (23, Num 0), (24, Num 0), (25, Num 0), (26, Num 0),
    (27, Num 0), (28, Num 0), (29, Num 0), (30, Num 0), (31, Num 0), (32, Num 0),
    (33, Num 0), (34, Num 0), (35, Num 0)]"
proof -
  have "co_holders users_interests ''Storm'' ''Storm'' = 1"
    by code_simp
  then have "map (interest_sim users_interests ''Storm'') (unique_interests users_interests)
    = map (sim_of 1)
        (map (\<lambda>y. (co_holders users_interests ''Storm'' y, co_holders users_interests y y))
           (unique_interests users_interests))"
    by (simp add: interest_sim_of comp_def)
  then show ?thesis
    unfolding holders_Storm
    by (simp add: sim_of_def enumerate_eq_zip upt_rec)
qed

lemma similar_Storm:
  "similar_interests users_interests 16 =
   [
    (''Spark'', 1), (''Cassandra'', 1 / sqrt 2), (''Hadoop'', 1 / sqrt 2),
    (''Big Data'', 1 / sqrt 3), (''HBase'', 1 / sqrt 3), (''Java'', 1 / sqrt 3)]"
proof -
  have n: "unique_interests users_interests ! 16 = ''Storm''"
    by (simp add: notebook_unique_interests)
  show ?thesis
    unfolding similar_interests_def n enumerate_Storm
    by (simp add: similar_pair_def notebook_unique_interests sorted_desc_def
          sqrt_compare)
qed

subsection \<open>Cell 22: the item-based suggestions for user 0\<close>

lemma notebook_vector_0:
  "generate_user_interest_vector users_interests (users_interests ! nat 0) =
   [
    1, 0, 1, 1, 1, 0, 1, 0, 0, 0, 0, 0, 0, 0, 0, 1, 1, 0, 0, 0, 0, 0, 0, 0, 0, 0, 0, 0, 0,
    0, 0, 0, 0, 0, 0, 0]"
  by (simp add: generate_user_interest_vector_def notebook_unique_interests)
     (simp add: users_interests_def)

lemma notebook_item_contributions_0:
  "item_contributions users_interests
     (enumerate 0 (generate_user_interest_vector users_interests (users_interests ! nat 0))) =
      similar_interests users_interests 0
      @ similar_interests users_interests 2
      @ similar_interests users_interests 3
      @ similar_interests users_interests 4
      @ similar_interests users_interests 6
      @ similar_interests users_interests 15
      @ similar_interests users_interests 16"
  unfolding notebook_vector_0
  by (simp add: item_contributions_def enumerate_eq_zip upt_rec numeral_2_eq_2 [symmetric])

lemma notebook_item_dict_0:
  "add_similar_interests
     (similar_interests users_interests 0
      @ similar_interests users_interests 2
      @ similar_interests users_interests 3
      @ similar_interests users_interests 4
      @ similar_interests users_interests 6
      @ similar_interests users_interests 15
      @ similar_interests users_interests 16) [] =
   [
    (''Hadoop'', 2 / sqrt 6 + 1 / 2 + 1 / sqrt 6 + 2 / sqrt 6 + 1 / sqrt 2 + 1 / sqrt 2),
    (''Java'', 2 / 3 + 1 / sqrt 6 + 1 / 3 + 2 / sqrt 6 + 1 / sqrt 3 + 1 / sqrt 3),
    (''MapReduce'', 1 / sqrt 3 + 1 / sqrt 2 + 1 / sqrt 3),
    (''Spark'', 1 / sqrt 3 + 1 / sqrt 2 + 1 / sqrt 3 + 1 / sqrt 2 + 1 / sqrt 3 + 1),
    (''Storm'', 1 / sqrt 3 + 1 / sqrt 2 + 1 / sqrt 3 + 1 / sqrt 2 + 1 / sqrt 3 + 1),
    (''Cassandra'', 1 / sqrt 6 + 2 / sqrt 6 + 1 / 2 + 1 / sqrt 6 + 1 / sqrt 2 + 1 / sqrt 2),
    (''artificial intelligence'', 1 / sqrt 6), (''deep learning'', 1 / sqrt 6),
    (''neural networks'', 1 / sqrt 6),
    (''HBase'', 1 / 3 + 2 / sqrt 6 + 1 / sqrt 6 + 1 / 3 + 1 / sqrt 3 + 1 / sqrt 3),
    (''NoSQL'', 1 / sqrt 2 + 1 / sqrt 3), (''MongoDB'', 1 / 2 + 2 / sqrt 6),
    (''Postgres'', 1 / 2 + 2 / sqrt 6),
    (''Big Data'', 1 / sqrt 6 + 1 / 3 + 2 / sqrt 6 + 2 / 3 + 1 / sqrt 3 + 1 / sqrt 3),
    (''MySQL'', 1 / sqrt 3), (''databases'', 1 / sqrt 3), (''Haskell'', 1 / sqrt 3),
    (''programming languages'', 1 / sqrt 3), (''C++'', 1 / sqrt 6),
    (''Python'', 1 / sqrt 12), (''R'', 1 / sqrt 12)]"
  unfolding similar_Big_Data similar_Cassandra similar_HBase similar_Hadoop
    similar_Java similar_Spark similar_Storm
  by simp

lemma sort_six_weights:
  fixes A B C D E F :: real
  assumes "F < E" "E < D" "D < C" "C < B" "B < A"
  shows "sorted_desc snd
           [(k1, A), (k2, E), (k3, E), (k4, E), (k5, C), (k6, B), (k7, B), (k8, D), (k9, D),
            (k10, D), (k11, D), (k12, E), (k13, F), (k14, F)]
         = [(k1, A), (k6, B), (k7, B), (k5, C), (k8, D), (k9, D), (k10, D), (k11, D),
            (k2, E), (k3, E), (k4, E), (k12, E), (k13, F), (k14, F)]"
  using assms by (simp add: sorted_desc_def)

lemma inverse_sqrt_bounds:
  "707 / 1000 < 1 / sqrt 2" "1 / sqrt 2 < (708 / 1000 :: real)"
  "577 / 1000 < 1 / sqrt 3" "1 / sqrt 3 < (578 / 1000 :: real)"
  "816 / 1000 < 2 / sqrt 6" "2 / sqrt 6 < (817 / 1000 :: real)"
proof -
  have "sqrt 2 < 1000 / 707" "1000 / 708 < sqrt 2"
    by (rule real_less_lsqrt real_less_rsqrt; simp add: power2_eq_square)+
  then show "707 / 1000 < 1 / sqrt 2" "1 / sqrt 2 < (708 / 1000 :: real)"
    by (simp_all add: field_simps)
  have "sqrt 3 < 1000 / 577" "1000 / 578 < sqrt 3"
    by (rule real_less_lsqrt real_less_rsqrt; simp add: power2_eq_square)+
  then show "577 / 1000 < 1 / sqrt 3" "1 / sqrt 3 < (578 / 1000 :: real)"
    by (simp_all add: field_simps)
  have "sqrt 6 < 2000 / 816" "2000 / 817 < sqrt 6"
    by (rule real_less_lsqrt real_less_rsqrt; simp add: power2_eq_square)+
  then show "816 / 1000 < 2 / sqrt 6" "2 / sqrt 6 < (817 / 1000 :: real)"
    by (simp_all add: field_simps)
qed

lemma notebook_weights_order:
  "1 / sqrt 12 < 1 / sqrt (6 :: real)"
  "1 / sqrt 6 < 1 / sqrt (3 :: real)"
  "1 / sqrt 3 < 1 / sqrt 2 + 1 / sqrt (3 :: real)"
  "1 / sqrt 2 + 1 / sqrt 3 < 1 / 2 + 2 / sqrt (6 :: real)"
  "1 / 2 + 2 / sqrt 6 < 1 / sqrt 3 + 1 / sqrt 2 + 1 / sqrt (3 :: real)"
proof -
  show "1 / sqrt 12 < 1 / sqrt (6 :: real)" "1 / sqrt 6 < 1 / sqrt (3 :: real)"
    by (simp_all add: frac_less2)
  show "1 / sqrt 3 < 1 / sqrt 2 + 1 / sqrt (3 :: real)"
    by simp
  show "1 / sqrt 2 + 1 / sqrt 3 < 1 / 2 + 2 / sqrt (6 :: real)"
    using inverse_sqrt_bounds by linarith
  show "1 / 2 + 2 / sqrt 6 < 1 / sqrt 3 + 1 / sqrt 2 + 1 / sqrt (3 :: real)"
    using inverse_sqrt_bounds by linarith
qed

lemma notebook_item_candidates_0:
  "filter (\<lambda>(i, w). i \<notin> set (users_interests ! nat 0))
     (add_similar_interests
        (similar_interests users_interests 0 @ similar_interests users_interests 2
         @ similar_interests users_interests 3 @ similar_interests users_interests 4
         @ similar_interests users_interests 6 @ similar_interests users_interests 15
         @ similar_interests users_interests 16) []) =
   [(''MapReduce'', 1 / sqrt 3 + 1 / sqrt 2 + 1 / sqrt 3),
    (''artificial intelligence'', 1 / sqrt 6), (''deep learning'', 1 / sqrt 6),
    (''neural networks'', 1 / sqrt 6), (''NoSQL'', 1 / sqrt 2 + 1 / sqrt 3),
    (''MongoDB'', 1 / 2 + 2 / sqrt 6), (''Postgres'', 1 / 2 + 2 / sqrt 6),
    (''MySQL'', 1 / sqrt 3), (''databases'', 1 / sqrt 3), (''Haskell'', 1 / sqrt 3),
    (''programming languages'', 1 / sqrt 3), (''C++'', 1 / sqrt 6),
    (''Python'', 1 / sqrt 12), (''R'', 1 / sqrt 12)]"
  unfolding notebook_item_dict_0 by (simp add: users_interests_def)

lemma notebook_item_based_suggestions_0:
  "item_based_suggestions users_interests 0 False =
     Inr [(''MapReduce'', 1 / sqrt 3 + 1 / sqrt 2 + 1 / sqrt 3),
          (''MongoDB'', 1 / 2 + 2 / sqrt 6), (''Postgres'', 1 / 2 + 2 / sqrt 6),
          (''NoSQL'', 1 / sqrt 2 + 1 / sqrt 3),
          (''MySQL'', 1 / sqrt 3), (''databases'', 1 / sqrt 3), (''Haskell'', 1 / sqrt 3),
          (''programming languages'', 1 / sqrt 3),
          (''artificial intelligence'', 1 / sqrt 6), (''deep learning'', 1 / sqrt 6),
          (''neural networks'', 1 / sqrt 6), (''C++'', 1 / sqrt 6),
          (''Python'', 1 / sqrt 12), (''R'', 1 / sqrt 12)]"
proof -
  have h: "(0::int) \<le> 0" "0 < int (length users_interests)"
    by (simp_all add: users_interests_def)
  show ?thesis
    unfolding item_based_suggestions_eq [OF h] notebook_item_contributions_0
      Let_def if_False filter_sorted_desc notebook_item_candidates_0
      sort_six_weights [OF notebook_weights_order] ..
qed

end
